theory Spec2Isabelle
  imports Main "HOL-Library.AList"
begin

section \<open>JavaScript values\<close>

text \<open>
  The values that travel through \<^verbatim>\<open>fabric-network/lib/gateway.js\<close>: primitives, plain
  objects (an association list of own enumerable properties, in property order, as
  \<^verbatim>\<open>for ... in\<close> visits them) and references to host objects, functions and classes
  (wallets, event strategies, loaded plugin classes), which are \<^verbatim>\<open>instanceof Object\<close>
  and have no enumerable property of their own. Plain objects are modelled by value: the
  model does not track that two option objects may be one and the same JavaScript object.
\<close>

datatype jsval =
    JUndefined
  | JNull
  | JBool bool
  | JNum int
  | JStr string
  | JRef nat
  | JObj "(string \<times> jsval) list"

text \<open>Errors thrown by the gateway itself, or handed through from a collaborator.\<close>

datatype error =
    Error string
  | TypeError
  | RangeError
  | QueryHandlerLoadError jsval error
  | External nat

text \<open>
  \<open>QueryHandlerLoadError q e\<close> is
  \<^verbatim>\<open>new Error(`unable to load provided query handler: ${q}. Error ${e}`)\<close>;
  \<open>TypeError\<close> is what the engine throws on a property access on \<^verbatim>\<open>null\<close> or
  \<^verbatim>\<open>undefined\<close> and, in strict mode, on a property assignment to a primitive;
  \<open>RangeError\<close> is what it throws when calls nest deeper than its call stack allows;
  \<open>External n\<close> is an error raised inside a collaborator.
\<close>

fun truthy :: "jsval \<Rightarrow> bool" where
  "truthy JUndefined = False"
| "truthy JNull = False"
| "truthy (JBool b) = b"
| "truthy (JNum n) = (n \<noteq> 0)"
| "truthy (JStr s) = (s \<noteq> [])"
| "truthy (JRef r) = True"
| "truthy (JObj fs) = True"

fun instanceofObject :: "jsval \<Rightarrow> bool" where
  "instanceofObject (JRef r) = True"
| "instanceofObject (JObj fs) = True"
| "instanceofObject v = False"

text \<open>The own enumerable properties that \<^verbatim>\<open>for (const prop in v)\<close> visits.\<close>

fun props_of :: "jsval \<Rightarrow> (string \<times> jsval) list" where
  "props_of (JObj fs) = fs"
| "props_of v = []"

text \<open>
  The property read \<^verbatim>\<open>v[prop]\<close> on a value that is neither \<^verbatim>\<open>null\<close> nor
  \<^verbatim>\<open>undefined\<close>: a missing property reads as \<^verbatim>\<open>undefined\<close>.
\<close>

fun get :: "jsval \<Rightarrow> string \<Rightarrow> jsval" where
  "get (JObj fs) prop = (case map_of fs prop of None \<Rightarrow> JUndefined | Some v \<Rightarrow> v)"
| "get v prop = JUndefined"

text \<open>\<^verbatim>\<open>prop.endsWith(suffix)\<close>.\<close>

definition endsWith :: "string \<Rightarrow> string \<Rightarrow> bool" where
  "endsWith s suf =
     (length suf \<le> length s \<and> drop (length s - length suf) s = suf)"

section \<open>Gateway._mergeOptions\<close>

text \<open>
  \<^verbatim>\<open>
  static _mergeOptions(defaultOptions, suppliedOptions) {
      for (const prop in suppliedOptions) {
          if (suppliedOptions[prop] instanceof Object && prop.endsWith('Options')) {
              if (defaultOptions[prop] === undefined) {
                  defaultOptions[prop] = suppliedOptions[prop];
              } else {
                  Gateway._mergeOptions(defaultOptions[prop], suppliedOptions[prop]);
              }
          } else {
              defaultOptions[prop] = suppliedOptions[prop];
          }
      }
  }
  \<close>
  The function mutates \<open>defaultOptions\<close> in place; the model returns the value of
  \<open>defaultOptions\<close> after the loop together with the error that stopped it, if one did
  (what was assigned before the error stays assigned). The second argument is the list of
  properties of \<open>suppliedOptions\<close> still to visit. A step on a \<open>defaultOptions\<close> that is
  \<^verbatim>\<open>null\<close>, \<^verbatim>\<open>undefined\<close> or a primitive throws a TypeError (the file is in strict
  mode); properties assigned to a host object are outside the model and leave the reference
  as it is. The objects are values here, each in its own place: that is the merge as long
  as no object takes part in it under two names. The merge of objects that are shared is
  in the section on option objects in a store, below.
\<close>

definition nestedOptions :: "string \<Rightarrow> jsval \<Rightarrow> bool" where
  "nestedOptions prop v = (instanceofObject v \<and> endsWith prop ''Options'')"

function mergeOptions :: "jsval \<Rightarrow> (string \<times> jsval) list \<Rightarrow> jsval \<times> error option" where
  "mergeOptions defaultOptions [] = (defaultOptions, None)"
| "mergeOptions defaultOptions ((prop, v) # rest) =
     (case defaultOptions of
        JObj fs \<Rightarrow>
          (if nestedOptions prop v then
             (if get defaultOptions prop = JUndefined then
                mergeOptions (JObj (AList.update prop v fs)) rest
              else
                (case mergeOptions (get defaultOptions prop) (props_of v) of
                   (d, Some e) \<Rightarrow> (JObj (AList.update prop d fs), Some e)
                 | (d, None) \<Rightarrow> mergeOptions (JObj (AList.update prop d fs)) rest))
           else mergeOptions (JObj (AList.update prop v fs)) rest)
      | JRef r \<Rightarrow> mergeOptions defaultOptions rest
      | _ \<Rightarrow> (defaultOptions, Some TypeError))"
  by pat_completeness auto
termination
proof (relation "measure (\<lambda>(d, s). size_list (size_prod (\<lambda>_. 0) size) s)")
  show "wf (measure (\<lambda>(d, s). size_list (size_prod (\<lambda>_. 0) size) s))"
    by simp
next
  fix defaultOptions :: jsval and k v rest
  have "size_list (size_prod (\<lambda>_. 0) size) (props_of v) \<le> size v"
    by (cases v) simp_all
  then show "((get defaultOptions k, props_of v), (defaultOptions, (k, v) # rest))
      \<in> measure (\<lambda>(d, s). size_list (size_prod (\<lambda>_. 0) size) s)"
    by simp
qed simp_all

text \<open>
  What one round of the loop leaves in \<open>defaultOptions[prop]\<close>, with the error of the
  nested call, if it made one and that one threw.
\<close>

definition merge_prop :: "jsval \<Rightarrow> string \<Rightarrow> jsval \<Rightarrow> jsval \<times> error option" where
  "merge_prop d p v =
     (if nestedOptions p v \<and> get d p \<noteq> JUndefined
      then mergeOptions (get d p) (props_of v) else (v, None))"

section \<open>Collaborators\<close>

text \<open>
  The gateway calls into code that is not part of \<^verbatim>\<open>gateway.js\<close>: the Client of
  \<^verbatim>\<open>fabric-client\<close>, the wallet, the Network class, Node's \<^verbatim>\<open>require\<close> and the loaded
  query handler class. What the gateway itself reads or writes of them is a field below;
  what they answer is a parameter (\<open>env\<close>), one per call of a gateway method, so that a
  collaborator may answer differently from one call to the next.
\<close>

text \<open>
  A Client. \<^verbatim>\<open>client.setTlsClientCertAndKey(cert, key)\<close> assigns the client's TLS
  certificate and key (the SDK's tutorial on mutual TLS: "assign those to the Client
  instance"); the record keeps every assignment, the latest last.
\<close>

record client =
  client_id :: nat
  tlsClientCertAndKey :: "(jsval \<times> jsval) list"

definition setTlsClientCertAndKey :: "jsval \<Rightarrow> jsval \<Rightarrow> client \<Rightarrow> client" where
  "setTlsClientCertAndKey clientCert clientKey c =
     c\<lparr>tlsClientCertAndKey := tlsClientCertAndKey c @ [(clientCert, clientKey)]\<rparr>"

datatype channel = Channel string nat

text \<open>
  Modelled from the spec: the User that \<^verbatim>\<open>wallet.setUserContext\<close> returns belongs to
  \<^verbatim>\<open>fabric-client\<close>, which is not among the sources verified here; the spec's Identity
  is "an MSP identifier plus credential material", and the gateway reads only
  \<^verbatim>\<open>getIdentity().getMSPId()\<close> of it.
\<close>

record user =
  user_name :: string
  mspId :: string

text \<open>
  Modelled from the spec: the Network class (\<^verbatim>\<open>lib/network.js\<close>) is not among the
  sources verified here. A Network is built on a channel (\<^verbatim>\<open>new Network(this, channel)\<close>),
  \<^verbatim>\<open>_initialize(discovery)\<close> performs its initial topology refresh and
  \<^verbatim>\<open>_dispose()\<close> tears it down. The record keeps the channel, the arguments of the
  \<^verbatim>\<open>_initialize\<close> calls made on the instance and the number of \<^verbatim>\<open>_dispose\<close> calls
  made on it. Network instances live in a heap (a list); a reference is an index into it,
  so that two references are the same instance exactly when they are equal.
\<close>

record network =
  net_channel :: channel
  net_initialize_calls :: "jsval list"
  net_dispose_calls :: nat

definition new_Network :: "channel \<Rightarrow> network" where
  "new_Network ch = \<lparr>net_channel = ch, net_initialize_calls = [], net_dispose_calls = 0\<rparr>"

definition dispose :: "network \<Rightarrow> network" where
  "dispose n = n\<lparr>net_dispose_calls := Suc (net_dispose_calls n)\<rparr>"

text \<open>
  The query handler that \<^verbatim>\<open>new this.queryHandlerClass(channel, currentmspId, peerMap,
  this.options.queryHandlerOptions)\<close> builds: its class, the four constructor arguments and
  whether \<^verbatim>\<open>initialize()\<close> has completed on it.
\<close>

record queryHandler =
  qh_class :: jsval
  qh_channel :: channel
  qh_mspId :: string
  qh_peerMap :: jsval
  qh_options :: jsval
  qh_initialized :: bool

text \<open>
  \<^item> \<open>loadFromConfig\<close>: \<^verbatim>\<open>Client.loadFromConfig(config)\<close>;
  \<^item> \<open>setUserContext\<close>: \<^verbatim>\<open>options.wallet.setUserContext(this.client, options.identity)\<close>
    (wallet, client, label);
  \<^item> \<open>wallet_export\<close>: \<^verbatim>\<open>options.wallet.export(options.clientTlsIdentity)\<close> (wallet, label);
  \<^item> \<open>require_module\<close>: \<^verbatim>\<open>require(this.options.queryHandler)\<close>;
  \<^item> \<open>getChannel\<close>: \<^verbatim>\<open>this.client.getChannel(networkName, false)\<close>, \<open>None\<close> for
    \<^verbatim>\<open>null\<close>;
  \<^item> \<open>newChannel\<close>: \<^verbatim>\<open>this.client.newChannel(networkName)\<close>;
  \<^item> \<open>network_initialize\<close>: the error with which \<^verbatim>\<open>newNetwork._initialize(discovery)\<close>
    rejects, if it does;
  \<^item> \<open>queryHandler_construct\<close>, \<open>queryHandler_initialize\<close>: the error that the
    constructor of the loaded class throws, and the one with which \<^verbatim>\<open>initialize()\<close>
    rejects, if they do.
\<close>

record env =
  loadFromConfig :: "jsval \<Rightarrow> error + client"
  setUserContext :: "jsval \<Rightarrow> client \<Rightarrow> jsval \<Rightarrow> error + user"
  wallet_export :: "jsval \<Rightarrow> jsval \<Rightarrow> error + jsval"
  require_module :: "jsval \<Rightarrow> error + jsval"
  getChannel :: "client \<Rightarrow> string \<Rightarrow> error + channel option"
  newChannel :: "client \<Rightarrow> string \<Rightarrow> error + channel"
  network_initialize :: "channel \<Rightarrow> jsval \<Rightarrow> error option"
  queryHandler_construct :: "jsval \<Rightarrow> channel \<Rightarrow> string \<Rightarrow> jsval \<Rightarrow> jsval \<Rightarrow> error option"
  queryHandler_initialize :: "queryHandler \<Rightarrow> error option"

section \<open>The Gateway\<close>

text \<open>
  The fields of a Gateway instance. \<open>networks\<close> is the \<^verbatim>\<open>Map\<close> from channel name to
  Network instance, in insertion order; \<open>currentIdentity\<close> and \<open>queryHandlerClass\<close> are
  not assigned by the constructor and read as \<^verbatim>\<open>undefined\<close> until \<open>connect\<close> sets them.
\<close>

record gateway =
  client :: "client option"
  wallet :: jsval
  networks :: "(string \<times> nat) list"
  options :: jsval
  currentIdentity :: "user option"
  queryHandlerClass :: jsval

text \<open>
  The constructor. Its two parameters stand for values of modules other than
  \<^verbatim>\<open>gateway.js\<close>: \<open>MSPID_SCOPE_ALLFORTX\<close> is \<^verbatim>\<open>EventStrategies.MSPID_SCOPE_ALLFORTX\<close> and
  \<open>initialize_with_discovery\<close> is
  \<^verbatim>\<open>Client.getConfigSetting('initialize-with-discovery', true)\<close>.
\<close>

definition new_Gateway :: "jsval \<Rightarrow> jsval \<Rightarrow> gateway" where
  "new_Gateway MSPID_SCOPE_ALLFORTX initialize_with_discovery =
     \<lparr>client = None,
      wallet = JNull,
      networks = [],
      options = JObj
        [(''queryHandler'', JStr ''./impl/query/defaultqueryhandler''),
         (''queryHandlerOptions'', JObj []),
         (''eventHandlerOptions'', JObj
            [(''commitTimeout'', JNum 300),
             (''strategy'', MSPID_SCOPE_ALLFORTX)]),
         (''discovery'', JObj [(''enabled'', initialize_with_discovery)])],
      currentIdentity = None,
      queryHandlerClass = JUndefined\<rparr>"

text \<open>
  The first argument of \<open>connect\<close>: a pre-configured client instance (an object whose
  constructor is named \<^verbatim>\<open>Client\<close>), or anything else, which is handed to
  \<^verbatim>\<open>Client.loadFromConfig\<close> as a connection profile.
\<close>

datatype config = ClientInstance client | Profile jsval

text \<open>\<^verbatim>\<open>delete o[prop]\<close> on a plain object.\<close>

fun delete_prop :: "jsval \<Rightarrow> string \<Rightarrow> jsval" where
  "delete_prop (JObj fs) prop = JObj (AList.delete prop fs)"
| "delete_prop v prop = v"

text \<open>
  The blocks of \<open>connect\<close>, in the order of the source. An \<^verbatim>\<open>await\<close> runs to completion:
  the model is sequential. Every block returns the gateway as the block leaves it, also
  when it throws, since what was assigned before a throw stays assigned.
\<close>

text \<open>
  \<^verbatim>\<open>
  if (options.queryHandler && (this.options.queryHandler !== options.queryHandler)) {
      delete this.options.queryHandlerOptions;
  }
  \<close>
  Strict inequality is inequality of values on primitives and of references on host
  objects; on two plain objects the model, which has them by value, does not decide it
  (the store below does).
\<close>

definition dropQueryHandlerOptions :: "jsval \<Rightarrow> gateway \<Rightarrow> gateway" where
  "dropQueryHandlerOptions opts g =
     (if truthy (get opts ''queryHandler'')
         \<and> get (options g) ''queryHandler'' \<noteq> get opts ''queryHandler''
      then g\<lparr>options := delete_prop (options g) ''queryHandlerOptions''\<rparr>
      else g)"

text \<open>
  \<^verbatim>\<open>
  if (!(config && config.constructor && config.constructor.name === 'Client')) {
      this.client = Client.loadFromConfig(config);
  } else {
      this.client = config;
  }
  \<close>
\<close>

definition selectClient :: "env \<Rightarrow> config \<Rightarrow> error + client" where
  "selectClient env cfg =
     (case cfg of
        Profile ccp \<Rightarrow> loadFromConfig env ccp
      | ClientInstance c \<Rightarrow> Inr c)"

text \<open>
  \<^verbatim>\<open>
  if (options.identity) {
      this.currentIdentity = await options.wallet.setUserContext(this.client, options.identity);
  }
  \<close>
\<close>

definition assignIdentity :: "env \<Rightarrow> jsval \<Rightarrow> client \<Rightarrow> gateway \<Rightarrow> error + gateway" where
  "assignIdentity env opts c g =
     (if truthy (get opts ''identity'') then
        (case setUserContext env (get opts ''wallet'') c (get opts ''identity'') of
           Inl e \<Rightarrow> Inl e
         | Inr u \<Rightarrow> Inr (g\<lparr>currentIdentity := Some u\<rparr>))
      else Inr g)"

text \<open>
  \<^verbatim>\<open>
  if (options.clientTlsIdentity) {
      const tlsIdentity = await options.wallet.export(options.clientTlsIdentity);
      this.client.setTlsClientCertAndKey(tlsIdentity.certificate, tlsIdentity.privateKey);
  }
  if (options.tlsInfo && !options.clientTlsIdentity) {
      this.client.setTlsClientCertAndKey(options.tlsInfo.certificate, options.tlsInfo.key);
  }
  \<close>
  A wallet that exports \<^verbatim>\<open>null\<close> or \<^verbatim>\<open>undefined\<close> makes the read of
  \<^verbatim>\<open>tlsIdentity.certificate\<close> throw a TypeError.
\<close>

definition assignTls :: "env \<Rightarrow> jsval \<Rightarrow> client \<Rightarrow> error + client" where
  "assignTls env opts c =
     (case
        (if truthy (get opts ''clientTlsIdentity'') then
           (case wallet_export env (get opts ''wallet'') (get opts ''clientTlsIdentity'') of
              Inl e \<Rightarrow> Inl e
            | Inr tlsIdentity \<Rightarrow>
                if tlsIdentity = JNull \<or> tlsIdentity = JUndefined then Inl TypeError
                else Inr (setTlsClientCertAndKey (get tlsIdentity ''certificate'')
                            (get tlsIdentity ''privateKey'') c))
         else Inr c)
      of
        Inl e \<Rightarrow> Inl e
      | Inr c1 \<Rightarrow>
          Inr (if truthy (get opts ''tlsInfo'') \<and> \<not> truthy (get opts ''clientTlsIdentity'')
               then setTlsClientCertAndKey (get (get opts ''tlsInfo'') ''certificate'')
                      (get (get opts ''tlsInfo'') ''key'') c1
               else c1))"

text \<open>
  \<^verbatim>\<open>
  if (this.options.queryHandler) {
      try {
          this.queryHandlerClass = require(this.options.queryHandler);
      } catch (error) {
          throw new Error(`unable to load provided query handler: ${this.options.queryHandler}. Error ${error}`);
      }
  }
  \<close>
\<close>

definition loadQueryHandler :: "env \<Rightarrow> gateway \<Rightarrow> gateway \<times> error option" where
  "loadQueryHandler env g =
     (if truthy (get (options g) ''queryHandler'') then
        (case require_module env (get (options g) ''queryHandler'') of
           Inl e \<Rightarrow> (g, Some (QueryHandlerLoadError (get (options g) ''queryHandler'') e))
         | Inr cls \<Rightarrow> (g\<lparr>queryHandlerClass := cls\<rparr>, None))
      else (g, None))"

text \<open>
  \<open>connect\<close>: the gateway after the call, and the error the call threw, if it did.
\<close>

definition connect :: "env \<Rightarrow> config \<Rightarrow> jsval \<Rightarrow> gateway \<Rightarrow> gateway \<times> error option" where
  "connect env cfg opts g =
     (if \<not> truthy opts \<or> \<not> truthy (get opts ''wallet'') then
        (g, Some (Error ''A wallet must be assigned to a Gateway instance''))
      else
        let g1 = dropQueryHandlerOptions opts g in
        (case mergeOptions (options g1) (props_of opts) of
           (merged, Some e) \<Rightarrow> (g1\<lparr>options := merged\<rparr>, Some e)
         | (merged, None) \<Rightarrow>
             let g2 = g1\<lparr>options := merged\<rparr> in
             (case selectClient env cfg of
                Inl e \<Rightarrow> (g2, Some e)
              | Inr c \<Rightarrow>
                  let g3 = g2\<lparr>client := Some c\<rparr> in
                  (case assignIdentity env opts c g3 of
                     Inl e \<Rightarrow> (g3, Some e)
                   | Inr g4 \<Rightarrow>
                       (case assignTls env opts c of
                          Inl e \<Rightarrow> (g4, Some e)
                        | Inr c1 \<Rightarrow> loadQueryHandler env (g4\<lparr>client := Some c1\<rparr>))))))"

definition getCurrentIdentity :: "gateway \<Rightarrow> user option" where
  "getCurrentIdentity g = currentIdentity g"

definition getClient :: "gateway \<Rightarrow> client option" where
  "getClient g = client g"

definition getOptions :: "gateway \<Rightarrow> jsval" where
  "getOptions g = options g"

text \<open>
  \<^verbatim>\<open>
  async getNetwork(networkName) {
      const existingNetwork = this.networks.get(networkName);
      if (existingNetwork) {
          return existingNetwork;
      }
      let channel = this.client.getChannel(networkName, false);
      if (channel === null) {
          channel = this.client.newChannel(networkName);
      }
      const newNetwork = new Network(this, channel);
      await newNetwork._initialize(this.options.discovery);
      this.networks.set(networkName, newNetwork);
      return newNetwork;
  }
  \<close>
  The state is the gateway and the heap of Network instances; the result is the reference
  returned or the error thrown. A Network instance is an object, hence truthy. Before
  \<open>connect\<close> has assigned a client, \<^verbatim>\<open>this.client\<close> is \<^verbatim>\<open>null\<close> and the call of
  \<^verbatim>\<open>getChannel\<close> on it throws a TypeError.
\<close>

definition lookupChannel :: "env \<Rightarrow> client \<Rightarrow> string \<Rightarrow> error + channel" where
  "lookupChannel env c networkName =
     (case getChannel env c networkName of
        Inl e \<Rightarrow> Inl e
      | Inr (Some ch) \<Rightarrow> Inr ch
      | Inr None \<Rightarrow> newChannel env c networkName)"

definition getNetwork ::
  "env \<Rightarrow> string \<Rightarrow> gateway \<times> network list \<Rightarrow> (gateway \<times> network list) \<times> (error + nat)" where
  "getNetwork env networkName w =
     (case w of (g, heap) \<Rightarrow>
        (case map_of (networks g) networkName of
           Some existingNetwork \<Rightarrow> (w, Inr existingNetwork)
         | None \<Rightarrow>
             (case client g of
                None \<Rightarrow> (w, Inl TypeError)
              | Some c \<Rightarrow>
                  (case lookupChannel env c networkName of
                     Inl e \<Rightarrow> (w, Inl e)
                   | Inr ch \<Rightarrow>
                       let newNetwork = length heap;
                           discovery = get (options g) ''discovery'';
                           heap1 = heap @ [(new_Network ch)
                                     \<lparr>net_initialize_calls := [discovery]\<rparr>]
                       in (case network_initialize env ch discovery of
                             Some e \<Rightarrow> ((g, heap1), Inl e)
                           | None \<Rightarrow>
                               ((g\<lparr>networks :=
                                     AList.update networkName newNetwork (networks g)\<rparr>,
                                 heap1),
                                Inr newNetwork))))))"

text \<open>
  \<^verbatim>\<open>
  disconnect() {
      for (const network of this.networks.values()) {
          network._dispose();
      }
      this.networks.clear();
  }
  \<close>
\<close>

fun dispose_each :: "nat list \<Rightarrow> network list \<Rightarrow> network list" where
  "dispose_each [] heap = heap"
| "dispose_each (r # rs) heap = dispose_each rs (heap[r := dispose (heap ! r)])"

definition disconnect :: "gateway \<times> network list \<Rightarrow> gateway \<times> network list" where
  "disconnect w =
     (case w of (g, heap) \<Rightarrow>
        (g\<lparr>networks := []\<rparr>, dispose_each (map snd (networks g)) heap))"


section \<open>Sequences of calls\<close>

text \<open>
  A call of a gateway method, with the answers its collaborators give during that call.
  \<open>step\<close> is the state after the call, whether it returned or threw.
\<close>

datatype call =
    Connect env config jsval
  | GetCurrentIdentity
  | GetClient
  | GetOptions
  | Disconnect
  | GetNetwork env string
  | CreateQueryHandler env channel jsval

fun step :: "call \<Rightarrow> gateway \<times> network list \<Rightarrow> gateway \<times> network list" where
  "step (Connect env cfg opts) (g, heap) = (fst (connect env cfg opts g), heap)"
| "step GetCurrentIdentity w = w"
| "step GetClient w = w"
| "step GetOptions w = w"
| "step Disconnect w = disconnect w"
| "step (GetNetwork env networkName) w = fst (getNetwork env networkName w)"
| "step (CreateQueryHandler env ch peerMap) w = w"

fun run :: "call list \<Rightarrow> gateway \<times> network list \<Rightarrow> gateway \<times> network list" where
  "run [] w = w"
| "run (c # cs) w = run cs (step c w)"

section \<open>Properties of states and of calls\<close>

text \<open>
  The cache of a gateway is in order when no channel name and no Network instance occurs
  twice in it and every cached reference is an instance of the heap.
\<close>

definition cache_ok :: "gateway \<times> network list \<Rightarrow> bool" where
  "cache_ok w =
     (case w of (g, heap) \<Rightarrow>
        distinct (map fst (networks g)) \<and> distinct (map snd (networks g))
        \<and> list_all (\<lambda>r. r < length heap) (map snd (networks g)))"

text \<open>A call that is a \<open>connect\<close> whose options carry an identity label.\<close>

fun supplies_identity :: "call \<Rightarrow> bool" where
  "supplies_identity (Connect env cfg opts) = truthy (get opts ''identity'')"
| "supplies_identity c = False"

text \<open>
  Options override the event handler option \<open>name\<close> when they carry an
  \<^verbatim>\<open>eventHandlerOptions\<close> property that is not an object, or is one that has the property
  \<open>name\<close>.
\<close>

definition overridesEventHandlerOption :: "jsval \<Rightarrow> string \<Rightarrow> bool" where
  "overridesEventHandlerOption opts name =
     list_ex (\<lambda>(k, v). k = ''eventHandlerOptions''
                \<and> (\<not> instanceofObject v \<or> name \<in> fst ` set (props_of v)))
       (props_of opts)"

fun isPlainObject :: "jsval \<Rightarrow> bool" where
  "isPlainObject (JObj fs) = True"
| "isPlainObject v = False"

section \<open>Option objects in a store\<close>

text \<open>
  \<^verbatim>\<open>_mergeOptions\<close> assigns the supplied object itself
  (\<^verbatim>\<open>defaultOptions[prop] = suppliedOptions[prop]\<close>) and merges into the objects of the
  gateway in place, so what a \<open>connect\<close> leaves in the options depends on which objects
  are one and the same. Here the objects are held by reference. A value is a primitive, a
  host object whose properties the model does not follow (the wallet, a strategy
  function), or the address of a plain object; a store gives the properties of the object
  at every address, in insertion order. Strict equality is equality of these values:
  of contents on primitives, of addresses on objects.
\<close>

datatype ref_val =
    RUndefined
  | RNull
  | RBool bool
  | RNum int
  | RStr string
  | RHost nat
  | RObj nat

type_synonym store = "nat \<Rightarrow> (string \<times> ref_val) list"

fun ref_truthy :: "ref_val \<Rightarrow> bool" where
  "ref_truthy RUndefined = False"
| "ref_truthy RNull = False"
| "ref_truthy (RBool b) = b"
| "ref_truthy (RNum n) = (n \<noteq> 0)"
| "ref_truthy (RStr s) = (s \<noteq> [])"
| "ref_truthy (RHost r) = True"
| "ref_truthy (RObj a) = True"

fun ref_instanceofObject :: "ref_val \<Rightarrow> bool" where
  "ref_instanceofObject (RHost r) = True"
| "ref_instanceofObject (RObj a) = True"
| "ref_instanceofObject v = False"

text \<open>
  The read \<^verbatim>\<open>v[p]\<close>: a property the object does not have reads as \<^verbatim>\<open>undefined\<close>, and
  so does every property of a primitive or of a host object. On \<^verbatim>\<open>null\<close> and
  \<^verbatim>\<open>undefined\<close> the source throws a TypeError; the code reads there only in
  \<^verbatim>\<open>_mergeOptions\<close>, on its \<open>defaultOptions\<close>, and the assignment that follows the
  read below throws the same error.
\<close>

fun read :: "store \<Rightarrow> ref_val \<Rightarrow> string \<Rightarrow> ref_val" where
  "read st (RObj a) p = (case map_of (st a) p of None \<Rightarrow> RUndefined | Some v \<Rightarrow> v)"
| "read st v p = RUndefined"

text \<open>The keys that \<^verbatim>\<open>for (const prop in v)\<close> visits.\<close>

fun keys_of :: "store \<Rightarrow> ref_val \<Rightarrow> string list" where
  "keys_of st (RObj a) = map fst (st a)"
| "keys_of st v = []"

text \<open>
  The assignment \<^verbatim>\<open>d[p] = v\<close>. It changes the object at the address of \<open>d\<close>, for
  every holder of that address; on a host object it is outside the model; on a primitive,
  \<^verbatim>\<open>null\<close> or \<^verbatim>\<open>undefined\<close> it throws a TypeError (the file is in strict mode).
\<close>

fun assign :: "store \<Rightarrow> ref_val \<Rightarrow> string \<Rightarrow> ref_val \<Rightarrow> store \<times> error option" where
  "assign st (RObj a) p v = (st(a := AList.update p v (st a)), None)"
| "assign st (RHost r) p v = (st, None)"
| "assign st d p v = (st, Some TypeError)"

text \<open>\<^verbatim>\<open>delete d[p]\<close>.\<close>

fun delete_property :: "store \<Rightarrow> ref_val \<Rightarrow> string \<Rightarrow> store" where
  "delete_property st (RObj a) p = st(a := AList.delete p (st a))"
| "delete_property st v p = st"

definition ref_nestedOptions :: "string \<Rightarrow> ref_val \<Rightarrow> bool" where
  "ref_nestedOptions p v = (ref_instanceofObject v \<and> endsWith p ''Options'')"

text \<open>
  The loop of \<^verbatim>\<open>_mergeOptions(d, s)\<close>, quoted above, over the keys of \<open>s\<close> still to
  visit, with the three branches of the source in their order. The keys are those that
  \<open>s\<close> has when the loop starts (the engine does not visit properties added while the
  loop runs, and the code deletes none); each value is read when its turn comes.
  \<open>depth\<close> is the number of nested calls that the call stack still allows: a call
  beyond it throws a RangeError, which is how a recursion through objects that contain
  themselves ends. The store is returned as the loop leaves it, also when it throws.
\<close>

fun mergeLoop ::
  "nat \<Rightarrow> store \<Rightarrow> ref_val \<Rightarrow> ref_val \<Rightarrow> string list \<Rightarrow> store \<times> error option" where
  "mergeLoop depth st d s [] = (st, None)"
| "mergeLoop depth st d s (p # rest) =
     (if ref_nestedOptions p (read st s p) then
        (if read st d p = RUndefined then
           (case assign st d p (read st s p) of
              (st1, Some e) \<Rightarrow> (st1, Some e)
            | (st1, None) \<Rightarrow> mergeLoop depth st1 d s rest)
         else
           (case depth of
              0 \<Rightarrow> (st, Some RangeError)
            | Suc n \<Rightarrow>
                (case mergeLoop n st (read st d p) (read st s p) (keys_of st (read st s p)) of
                   (st1, Some e) \<Rightarrow> (st1, Some e)
                 | (st1, None) \<Rightarrow> mergeLoop depth st1 d s rest)))
      else
        (case assign st d p (read st s p) of
           (st1, Some e) \<Rightarrow> (st1, Some e)
         | (st1, None) \<Rightarrow> mergeLoop depth st1 d s rest))"

definition mergeOptions_store ::
  "nat \<Rightarrow> store \<Rightarrow> ref_val \<Rightarrow> ref_val \<Rightarrow> store \<times> error option" where
  "mergeOptions_store depth st defaultOptions suppliedOptions =
     mergeLoop depth st defaultOptions suppliedOptions (keys_of st suppliedOptions)"

text \<open>
  The guard on the query handler, quoted above, on the store: \<^verbatim>\<open>!==\<close> on two objects
  compares their addresses.
\<close>

definition dropQueryHandlerOptions_store :: "store \<Rightarrow> ref_val \<Rightarrow> ref_val \<Rightarrow> store" where
  "dropQueryHandlerOptions_store st this_options opts =
     (if ref_truthy (read st opts ''queryHandler'')
         \<and> read st this_options ''queryHandler'' \<noteq> read st opts ''queryHandler''
      then delete_property st this_options ''queryHandlerOptions''
      else st)"

text \<open>
  What \<open>connect\<close> does to the option objects:
  \<^verbatim>\<open>
  if (!options || !options.wallet) {
      throw new Error('A wallet must be assigned to a Gateway instance');
  }
  if (options.queryHandler && (this.options.queryHandler !== options.queryHandler)) {
      delete this.options.queryHandlerOptions;
  }
  Gateway._mergeOptions(this.options, options);
  \<close>
  The blocks of \<open>connect\<close> that follow assign \<^verbatim>\<open>this.client\<close>,
  \<^verbatim>\<open>this.currentIdentity\<close> and \<^verbatim>\<open>this.queryHandlerClass\<close> and write to no option
  object, so the store that \<open>connect_options\<close> returns is the one \<open>connect\<close> leaves.
\<close>

definition connect_options ::
  "nat \<Rightarrow> store \<Rightarrow> ref_val \<Rightarrow> ref_val \<Rightarrow> store \<times> error option" where
  "connect_options depth st this_options opts =
     (if \<not> ref_truthy opts \<or> \<not> ref_truthy (read st opts ''wallet'') then
        (st, Some (Error ''A wallet must be assigned to a Gateway instance''))
      else
        mergeOptions_store depth (dropQueryHandlerOptions_store st this_options opts)
          this_options opts)"

section \<open>Option objects that share nothing\<close>

text \<open>
  A set of addresses is closed when no object in it has a property that refers to an
  object outside it.
\<close>

fun addr :: "ref_val \<Rightarrow> nat set" where
  "addr (RObj a) = {a}"
| "addr v = {}"

definition closed :: "store \<Rightarrow> nat set \<Rightarrow> bool" where
  "closed st X = (\<forall>x \<in> X. \<forall>v \<in> snd ` set (st x). addr v \<subseteq> X)"

text \<open>
  The merge of the object at \<open>b\<close> into the object at \<open>a\<close> makes a nested call at the
  key \<open>k\<close>.
\<close>

definition recursesOn :: "store \<Rightarrow> nat \<Rightarrow> nat \<Rightarrow> string \<Rightarrow> bool" where
  "recursesOn st a b k =
     (ref_nestedOptions k (read st (RObj b) k) \<and> read st (RObj a) k \<noteq> RUndefined)"

text \<open>
  The objects at \<open>a\<close> and \<open>b\<close> are separated when they are two objects and the nested
  calls of the merge of \<open>b\<close> into \<open>a\<close> work on objects that they share neither with
  each other nor with \<open>a\<close> or \<open>b\<close>: for every key with a nested call, both objects
  under that key lie in a closed region \<open>R k\<close> that contains neither \<open>a\<close> nor \<open>b\<close>, and
  the regions of two such keys are disjoint. Nothing is asked of the keys without a
  nested call. An object has each of its keys once; a store is any function from addresses
  to lists of properties, so this is part of the condition.
\<close>

definition separated_on ::
  "store \<Rightarrow> nat \<Rightarrow> nat \<Rightarrow> (string \<Rightarrow> nat set) \<Rightarrow> string list \<Rightarrow> bool" where
  "separated_on st a b R ks =
     (a \<noteq> b \<and> distinct ks
      \<and> (\<forall>k \<in> set ks. recursesOn st a b k \<longrightarrow>
            closed st (R k)
            \<and> addr (read st (RObj a) k) \<subseteq> R k \<and> addr (read st (RObj b) k) \<subseteq> R k
            \<and> a \<notin> R k \<and> b \<notin> R k
            \<and> (\<forall>k' \<in> set ks. k' \<noteq> k \<and> recursesOn st a b k' \<longrightarrow> R k \<inter> R k' = {})))"

definition separated :: "store \<Rightarrow> nat \<Rightarrow> nat \<Rightarrow> (string \<Rightarrow> nat set) \<Rightarrow> bool" where
  "separated st a b R = separated_on st a b R (map fst (st b))"

text \<open>
  What a run of the loop over the keys \<open>ks\<close> has done to separated objects, from \<open>st\<close>
  to \<open>st'\<close>: the supplied object is as it was; so is every object other than \<open>a\<close>
  outside the regions of the nested calls; \<open>a\<close> keeps the properties that \<open>ks\<close> does
  not name, keeps its own object under a key with a nested call and has the supplied
  value under every other key; and each region of a nested call is as that call, made on
  the first store, leaves it.
\<close>

definition loop_result ::
  "nat \<Rightarrow> (string \<Rightarrow> nat set) \<Rightarrow> store \<Rightarrow> nat \<Rightarrow> nat \<Rightarrow> string list \<Rightarrow> store \<Rightarrow> bool" where
  "loop_result depth R st a b ks st' =
     (st' b = st b
      \<and> (\<forall>y. y \<noteq> a \<and> (\<forall>k\<in>set ks. recursesOn st a b k \<longrightarrow> y \<notin> R k) \<longrightarrow> st' y = st y)
      \<and> (\<forall>k. k \<notin> set ks \<longrightarrow> read st' (RObj a) k = read st (RObj a) k)
      \<and> (\<forall>k\<in>set ks. read st' (RObj a) k =
            (if recursesOn st a b k then read st (RObj a) k else read st (RObj b) k))
      \<and> (\<forall>k\<in>set ks. recursesOn st a b k \<longrightarrow>
            (\<exists>n. depth = Suc n
               \<and> snd (mergeOptions_store n st (read st (RObj a) k) (read st (RObj b) k)) = None
               \<and> (\<forall>x\<in>R k. st' x =
                     fst (mergeOptions_store n st (read st (RObj a) k) (read st (RObj b) k)) x))))"

section \<open>A sample session\<close>

text \<open>
  Concrete collaborators and options, on which the theorems below are run: a wallet that
  knows every label, a module loader that knows the default query handler only, a client
  with no channel of its own.
\<close>

definition sample_client :: client where
  "sample_client = \<lparr>client_id = 1, tlsClientCertAndKey = []\<rparr>"

definition sample_env :: env where
  "sample_env =
     \<lparr>loadFromConfig = (\<lambda>ccp. Inr sample_client),
      setUserContext = (\<lambda>w c label.
         case label of JStr s \<Rightarrow> Inr \<lparr>user_name = s, mspId = ''Org1MSP''\<rparr>
                     | _ \<Rightarrow> Inl TypeError),
      wallet_export = (\<lambda>w label.
         Inr (JObj [(''certificate'', JStr ''wallet-cert''),
                    (''privateKey'', JStr ''wallet-key'')])),
      require_module = (\<lambda>m.
         if m = JStr ''./impl/query/defaultqueryhandler'' then Inr (JRef 7)
         else Inl (External 404)),
      getChannel = (\<lambda>c n. Inr None),
      newChannel = (\<lambda>c n. Inr (Channel n 0)),
      network_initialize = (\<lambda>ch discovery. None),
      queryHandler_construct = (\<lambda>cls ch msp peers qopts. None),
      queryHandler_initialize = (\<lambda>qh. None)\<rparr>"

definition sample_options :: jsval where
  "sample_options = JObj [(''wallet'', JRef 1), (''identity'', JStr ''admin'')]"

definition sample_overrides :: jsval where
  "sample_overrides =
     JObj [(''wallet'', JRef 1),
           (''identity'', JStr ''admin''),
           (''eventHandlerOptions'', JObj [(''commitTimeout'', JNum 100)]),
           (''discovery'', JObj [(''asLocalhost'', JBool True)])]"

definition sample_gateway :: gateway where
  "sample_gateway =
     \<lparr>client = Some sample_client,
      wallet = JNull,
      networks = [],
      options = JObj
        [(''queryHandler'', JStr ''./impl/query/defaultqueryhandler''),
         (''queryHandlerOptions'', JObj []),
         (''eventHandlerOptions'', JObj
            [(''commitTimeout'', JNum 300),
             (''strategy'', JRef 0)]),
         (''discovery'', JObj [(''enabled'', JBool True)]),
         (''wallet'', JRef 1),
         (''identity'', JStr ''admin'')],
      currentIdentity = Some \<lparr>user_name = ''admin'', mspId = ''Org1MSP''\<rparr>,
      queryHandlerClass = JRef 7\<rparr>"

definition sample_tls_options :: jsval where
  "sample_tls_options =
     JObj [(''wallet'', JRef 1),
           (''clientTlsIdentity'', JStr ''tlsId''),
           (''tlsInfo'', JObj [(''certificate'', JStr ''info-cert''),
                               (''key'', JStr ''info-key'')])]"

definition sample_tlsInfo_options :: jsval where
  "sample_tlsInfo_options =
     JObj [(''wallet'', JRef 1),
           (''tlsInfo'', JObj [(''certificate'', JStr ''info-cert''),
                               (''key'', JStr ''info-key'')])]"


definition sample_defaults :: jsval where
  "sample_defaults =
     JObj [(''queryHandler'', JStr ''./impl/query/defaultqueryhandler''),
           (''queryHandlerOptions'', JObj []),
           (''eventHandlerOptions'', JObj
              [(''commitTimeout'', JNum 300),
               (''strategy'', JRef 0)]),
           (''discovery'', JObj [(''enabled'', JBool True)])]"

definition sample_network :: "string \<Rightarrow> nat \<Rightarrow> network" where
  "sample_network name disposed =
     \<lparr>net_channel = Channel name 0,
      net_initialize_calls = [JObj [(''enabled'', JBool True)]],
      net_dispose_calls = disposed\<rparr>"

text \<open>
  A store with the options of a gateway at address 0, as the constructor builds them but
  for a \<^verbatim>\<open>timeout\<close> that an earlier \<open>connect\<close> merged into its query handler options,
  and with the option objects of three callers at 10, 20 and 30.
\<close>

definition sample_store :: store where
  "sample_store =
     (\<lambda>a. [])
       (0 := [(''queryHandler'', RStr ''./impl/query/defaultqueryhandler''),
              (''queryHandlerOptions'', RObj 1),
              (''eventHandlerOptions'', RObj 2),
              (''discovery'', RObj 3)],
        1 := [(''timeout'', RNum 5)],
        2 := [(''commitTimeout'', RNum 300), (''strategy'', RHost 0)],
        3 := [(''enabled'', RBool True)],
        10 := [(''wallet'', RHost 1),
               (''identity'', RStr ''admin''),
               (''eventHandlerOptions'', RObj 11),
               (''discovery'', RObj 12)],
        11 := [(''commitTimeout'', RNum 100)],
        12 := [(''asLocalhost'', RBool True)],
        20 := [(''wallet'', RHost 1),
               (''queryHandler'', RStr ''./my/handler'')],
        30 := [(''wallet'', RHost 1),
               (''queryHandlerOptions'', RObj 31)],
        31 := [(''retries'', RNum 2)])"

definition sample_regions :: "string \<Rightarrow> nat set" where
  "sample_regions k =
     (if k = ''eventHandlerOptions'' then {2, 11}
      else if k = ''queryHandlerOptions'' then {1, 31}
      else {})"

text \<open>
  A store with the options of a new gateway at address 0 and the option objects of two
  calls of \<open>connect\<close>: the first, at 40, has one and the same object under
  \<^verbatim>\<open>aOptions\<close> and \<^verbatim>\<open>bOptions\<close>; the second, at 50, has
  \<^verbatim>\<open>{aOptions: {k: 1}, bOptions: {k: 2}}\<close>.
\<close>

definition shared_store :: store where
  "shared_store =
     (\<lambda>a. [])
       (0 := [(''queryHandler'', RStr ''./impl/query/defaultqueryhandler''),
              (''queryHandlerOptions'', RObj 1),
              (''eventHandlerOptions'', RObj 2),
              (''discovery'', RObj 3)],
        1 := [],
        2 := [(''commitTimeout'', RNum 300), (''strategy'', RHost 0)],
        3 := [(''enabled'', RBool True)],
        40 := [(''wallet'', RHost 1), (''aOptions'', RObj 41), (''bOptions'', RObj 41)],
        41 := [],
        50 := [(''wallet'', RHost 1), (''aOptions'', RObj 51), (''bOptions'', RObj 52)],
        51 := [(''k'', RNum 1)],
        52 := [(''k'', RNum 2)])"

section \<open>Evaluating the sample session\<close>

lemmas sample_defs =
  sample_env_def sample_client_def sample_options_def sample_overrides_def new_Gateway_def

lemmas connect_defs =
  connect_def dropQueryHandlerOptions_def nestedOptions_def endsWith_def selectClient_def
  assignIdentity_def assignTls_def loadQueryHandler_def setTlsClientCertAndKey_def

lemma sample_connect:
  "connect sample_env (ClientInstance sample_client) sample_options
     (new_Gateway (JRef 0) (JBool True)) = (sample_gateway, None)"
  by (simp add: connect_defs sample_gateway_def sample_options_def new_Gateway_def
      sample_env_def)

lemma sample_getNetwork_mychannel:
  "getNetwork sample_env ''mychannel'' (sample_gateway, []) =
     ((sample_gateway\<lparr>networks := [(''mychannel'', 0)]\<rparr>, [sample_network ''mychannel'' 0]),
      Inr 0)"
  by (simp add: getNetwork_def lookupChannel_def sample_gateway_def sample_env_def
      sample_network_def new_Network_def)

lemma sample_getNetwork_other:
  "getNetwork sample_env ''other''
     (sample_gateway\<lparr>networks := [(''mychannel'', 0)]\<rparr>, [sample_network ''mychannel'' 0]) =
     ((sample_gateway\<lparr>networks := [(''mychannel'', 0), (''other'', 1)]\<rparr>,
       [sample_network ''mychannel'' 0, sample_network ''other'' 0]),
      Inr 1)"
  by (simp add: getNetwork_def lookupChannel_def sample_gateway_def sample_env_def
      sample_network_def new_Network_def)

lemma sample_run:
  "run [Connect sample_env (ClientInstance sample_client) sample_options,
        GetNetwork sample_env ''mychannel'',
        GetNetwork sample_env ''other'']
     (new_Gateway (JRef 0) (JBool True), []) =
   (sample_gateway\<lparr>networks := [(''mychannel'', 0), (''other'', 1)]\<rparr>,
    [sample_network ''mychannel'' 0, sample_network ''other'' 0])"
  by (simp add: sample_connect sample_getNetwork_mychannel sample_getNetwork_other)

section \<open>The network cache\<close>

lemma getNetwork_cached:
  "map_of (networks g) N = Some n \<Longrightarrow> getNetwork env N (g, heap) = ((g, heap), Inr n)"
  by (simp add: getNetwork_def)

lemma getNetwork_Inr_cached:
  assumes "getNetwork env N w = (w1, Inr n)"
  shows "map_of (networks (fst w1)) N = Some n"
  using assms
  by (auto simp: getNetwork_def Let_def update_conv' split: prod.splits option.splits sum.splits)

text \<open>
  C1. Once \<open>getNetwork\<close> has returned a Network instance for a channel name, a second call
  with that name returns the same reference and leaves the gateway and the heap of Network
  instances as they were: nothing is built and no \<^verbatim>\<open>_initialize\<close> call is made, whatever
  the collaborators would answer the second time.
\<close>

theorem getNetwork_idempotent:
  assumes "getNetwork env1 N w = (w1, Inr n)"
  shows "getNetwork env2 N w1 = (w1, Inr n)"
proof -
  obtain g1 heap1 where w1: "w1 = (g1, heap1)" by (cases w1)
  from getNetwork_Inr_cached [OF assms] w1 have "map_of (networks g1) N = Some n" by simp
  then show ?thesis unfolding w1 by (rule getNetwork_cached)
qed

theorem getNetwork_idempotent_witness:
  "getNetwork sample_env ''mychannel'' (sample_gateway, []) =
     ((sample_gateway\<lparr>networks := [(''mychannel'', 0)]\<rparr>, [sample_network ''mychannel'' 0]),
      Inr 0)
   \<and> getNetwork sample_env ''mychannel''
       (sample_gateway\<lparr>networks := [(''mychannel'', 0)]\<rparr>, [sample_network ''mychannel'' 0]) =
     ((sample_gateway\<lparr>networks := [(''mychannel'', 0)]\<rparr>, [sample_network ''mychannel'' 0]),
      Inr 0)"
  using getNetwork_idempotent [OF sample_getNetwork_mychannel, of sample_env]
    sample_getNetwork_mychannel
  by simp

lemma length_dispose_each [simp]: "length (dispose_each rs heap) = length heap"
  by (induction rs arbitrary: heap) simp_all

lemma dispose_each_nth:
  "distinct rs \<Longrightarrow> r < length heap \<Longrightarrow>
   dispose_each rs heap ! r = (if r \<in> set rs then dispose (heap ! r) else heap ! r)"
proof (induction rs arbitrary: heap)
  case Nil
  then show ?case by simp
next
  case (Cons a rs)
  have len: "r < length (heap[a := dispose (heap ! a)])"
    using Cons.prems by simp
  have d: "distinct rs" and a: "a \<notin> set rs"
    using Cons.prems by simp_all
  show ?case
  proof (cases "r = a")
    case True
    with Cons.IH [OF d len] a Cons.prems show ?thesis by simp
  next
    case False
    with Cons.IH [OF d len] show ?thesis by simp
  qed
qed

lemma networks_dropQueryHandlerOptions [simp]:
  "networks (dropQueryHandlerOptions opts g) = networks g"
  by (simp add: dropQueryHandlerOptions_def)

lemma networks_assignIdentity:
  "assignIdentity env opts c g = Inr g' \<Longrightarrow> networks g' = networks g"
  by (auto simp: assignIdentity_def split: if_splits sum.splits)

lemma networks_loadQueryHandler [simp]:
  "networks (fst (loadQueryHandler env g)) = networks g"
  by (simp add: loadQueryHandler_def split: sum.splits)

lemma networks_connect: "networks (fst (connect env cfg opts g)) = networks g"
  by (auto simp: connect_def Let_def dest: networks_assignIdentity
      split: prod.splits option.splits sum.splits)

lemma update_absent:
  "k \<notin> fst ` set al \<Longrightarrow> AList.update k v al = al @ [(k, v)]"
  by (induction al) auto

lemma cache_ok_getNetwork:
  assumes "cache_ok w"
  shows "cache_ok (fst (getNetwork env N w))"
proof -
  obtain g heap where w: "w = (g, heap)" by (cases w)
  have fresh: "length heap \<notin> set (map snd (networks g))"
    using assms unfolding w cache_ok_def by (auto simp: list_all_iff)
  have less: "list_all (\<lambda>r. r < Suc (length heap)) (map snd (networks g))"
    using assms unfolding w cache_ok_def by (auto simp: list_all_iff)
  have app: "map_of (networks g) N = None \<Longrightarrow>
      AList.update N (length heap) (networks g) = networks g @ [(N, length heap)]"
    by (simp add: update_absent map_of_eq_None_iff)
  show ?thesis
    using assms fresh less unfolding w
    by (auto simp: getNetwork_def cache_ok_def Let_def list_all_iff app map_of_eq_None_iff
        split: option.splits sum.splits)
qed

lemma cache_ok_disconnect: "cache_ok (disconnect w)"
  by (simp add: disconnect_def cache_ok_def split: prod.splits)

lemma cache_ok_step: "cache_ok w \<Longrightarrow> cache_ok (step c w)"
proof (cases c)
  case (Connect env cfg opts)
  assume "cache_ok w"
  then show ?thesis
    unfolding Connect by (cases w) (simp add: cache_ok_def networks_connect)
next
  case (GetNetwork env N)
  assume "cache_ok w"
  then show ?thesis
    unfolding GetNetwork by (simp add: cache_ok_getNetwork)
qed (simp_all add: cache_ok_disconnect)

lemma cache_ok_run: "cache_ok w \<Longrightarrow> cache_ok (run cs w)"
  by (induction cs arbitrary: w) (simp_all add: cache_ok_step)

lemma cache_ok_new_Gateway: "cache_ok (new_Gateway s d, [])"
  by (simp add: cache_ok_def new_Gateway_def)

text \<open>
  C2. In every state that a sequence of calls reaches from a new Gateway, \<open>disconnect\<close>
  empties the network cache and makes exactly one \<^verbatim>\<open>_dispose\<close> call on every cached
  Network instance: the instance's count of \<^verbatim>\<open>_dispose\<close> calls goes up by one, every
  other instance of the heap is left alone. A \<open>getNetwork\<close> that returns after it returns an
  instance that did not exist before, for whatever channel name.
\<close>

theorem disconnect_disposes_every_network:
  assumes reach: "run cs (new_Gateway s d, []) = (g, heap)"
  shows "networks (fst (disconnect (g, heap))) = []
       \<and> length (snd (disconnect (g, heap))) = length heap
       \<and> (\<forall>r < length heap.
            snd (disconnect (g, heap)) ! r =
              (if r \<in> snd ` set (networks g)
               then (heap ! r)\<lparr>net_dispose_calls := net_dispose_calls (heap ! r) + 1\<rparr>
               else heap ! r))
       \<and> (\<forall>env N w2 n. getNetwork env N (disconnect (g, heap)) = (w2, Inr n)
            \<longrightarrow> n = length heap \<and> length (snd w2) = Suc (length heap))"
proof -
  have ok: "cache_ok (g, heap)"
    using cache_ok_run [OF cache_ok_new_Gateway, of cs s d] reach by simp
  then have dist: "distinct (map snd (networks g))"
    by (simp add: cache_ok_def)
  have a: "networks (fst (disconnect (g, heap))) = []"
    by (simp add: disconnect_def)
  have b: "length (snd (disconnect (g, heap))) = length heap"
    by (simp add: disconnect_def)
  have c: "\<forall>r < length heap.
            snd (disconnect (g, heap)) ! r =
              (if r \<in> snd ` set (networks g)
               then (heap ! r)\<lparr>net_dispose_calls := net_dispose_calls (heap ! r) + 1\<rparr>
               else heap ! r)"
    using dist by (simp add: disconnect_def dispose_each_nth dispose_def)
  have d: "\<forall>env N w2 n. getNetwork env N (disconnect (g, heap)) = (w2, Inr n)
            \<longrightarrow> n = length heap \<and> length (snd w2) = Suc (length heap)"
    by (auto simp: getNetwork_def disconnect_def Let_def split: option.splits sum.splits)
  from a b c d show ?thesis by blast
qed

theorem disconnect_disposes_every_network_witness:
  "run [Connect sample_env (ClientInstance sample_client) sample_options,
        GetNetwork sample_env ''mychannel'',
        GetNetwork sample_env ''other'']
     (new_Gateway (JRef 0) (JBool True), []) =
   (sample_gateway\<lparr>networks := [(''mychannel'', 0), (''other'', 1)]\<rparr>,
    [sample_network ''mychannel'' 0, sample_network ''other'' 0])
   \<and> disconnect
       (sample_gateway\<lparr>networks := [(''mychannel'', 0), (''other'', 1)]\<rparr>,
        [sample_network ''mychannel'' 0, sample_network ''other'' 0]) =
     (sample_gateway, [sample_network ''mychannel'' 1, sample_network ''other'' 1])
   \<and> snd (getNetwork sample_env ''mychannel''
            (sample_gateway, [sample_network ''mychannel'' 1, sample_network ''other'' 1])) =
     Inr 2"
proof -
  let ?g = "sample_gateway\<lparr>networks := [(''mychannel'', 0), (''other'', 1)]\<rparr>"
  let ?heap = "[sample_network ''mychannel'' 0, sample_network ''other'' 0]"
  note t = disconnect_disposes_every_network [OF sample_run]
  obtain g' heap' where d: "disconnect (?g, ?heap) = (g', heap')"
    by (cases "disconnect (?g, ?heap)")
  have g': "g' = sample_gateway"
    using d t by (simp add: disconnect_def sample_gateway_def)
  have len: "length heap' = 2"
    using d t by simp
  have n0: "heap' ! 0 = sample_network ''mychannel'' 1"
    using d t by (simp add: sample_network_def)
  have n1: "heap' ! 1 = sample_network ''other'' 1"
    using d t by (simp add: sample_network_def)
  have heap': "heap' = [sample_network ''mychannel'' 1, sample_network ''other'' 1]"
    using len n0 n1 by (auto simp: list_eq_iff_nth_eq less_Suc_eq numeral_2_eq_2)
  have "snd (getNetwork sample_env ''mychannel'' (g', heap')) = Inr 2"
    unfolding g' heap'
    by (simp add: getNetwork_def lookupChannel_def sample_gateway_def sample_env_def)
  with d g' heap' sample_run show ?thesis by simp
qed

section \<open>Merging options\<close>

lemma get_update [simp]:
  "get (JObj (AList.update p x fs)) k = (if k = p then x else get (JObj fs) k)"
  by (simp add: update_conv')

lemma get_absent: "k \<notin> fst ` set fs \<Longrightarrow> get (JObj fs) k = JUndefined"
  by (simp add: map_of_eq_None_iff [symmetric])

lemma get_delete [simp]:
  "get (delete_prop d p) k = (if k = p then JUndefined else get d k)"
  by (cases d) (simp_all add: delete_conv')

declare get.simps(1) [simp del]


lemma mergeOptions_frame:
  "k \<notin> fst ` set supplied \<Longrightarrow> get (fst (mergeOptions d supplied)) k = get d k"
proof (induction supplied arbitrary: d)
  case Nil
  then show ?case by simp
next
  case (Cons pv supplied)
  obtain p v where pv: "pv = (p, v)" by (cases pv)
  from Cons.prems pv have kp: "k \<noteq> p" and ksup: "k \<notin> fst ` set supplied" by auto
  note IH = Cons.IH [OF ksup]
  show ?case
  proof (cases d)
    case (JObj fs)
    show ?thesis
      unfolding pv JObj using kp IH
      by (simp split: prod.splits option.splits)
  qed (simp_all add: pv IH)
qed

lemma mergeOptions_Cons_obj:
  "mergeOptions (JObj fs) ((p, v) # rest) =
     (case snd (merge_prop (JObj fs) p v) of
        Some e \<Rightarrow> (JObj (AList.update p (fst (merge_prop (JObj fs) p v)) fs), Some e)
      | None \<Rightarrow> mergeOptions (JObj (AList.update p (fst (merge_prop (JObj fs) p v)) fs)) rest)"
  by (simp add: merge_prop_def split: prod.splits option.splits)

lemma mergeOptions_isPlainObject:
  "isPlainObject d \<Longrightarrow> isPlainObject (fst (mergeOptions d supplied))"
proof (induction supplied arbitrary: d)
  case Nil
  then show ?case by simp
next
  case (Cons pv supplied)
  obtain p v where pv: "pv = (p, v)" by (cases pv)
  from Cons.prems obtain fs where d: "d = JObj fs" by (cases d) simp_all
  show ?case
    unfolding pv d mergeOptions_Cons_obj
    by (simp add: Cons.IH split: option.splits)
qed

lemma mergeOptions_frame2:
  assumes "\<forall>v. (k, v) \<in> set supplied \<longrightarrow> instanceofObject v \<and> j \<notin> fst ` set (props_of v)"
    and "endsWith k ''Options''"
  shows "get (get (fst (mergeOptions d supplied)) k) j = get (get d k) j"
  using assms(1)
proof (induction supplied arbitrary: d)
  case Nil
  then show ?case by simp
next
  case (Cons pv supplied)
  obtain p v where pv: "pv = (p, v)" by (cases pv)
  have rest: "\<forall>v. (k, v) \<in> set supplied \<longrightarrow> instanceofObject v \<and> j \<notin> fst ` set (props_of v)"
    using Cons.prems by simp
  note IH = Cons.IH [OF rest]
  show ?case
  proof (cases d)
    case (JObj fs)
    have here: "get (fst (merge_prop (JObj fs) p v)) j = get (get (JObj fs) p) j" if "k = p"
    proof -
      from that Cons.prems pv have v: "instanceofObject v" "j \<notin> fst ` set (props_of v)"
        by simp_all
      then have vj: "get v j = JUndefined"
        by (cases v) (simp_all add: get_absent)
      show ?thesis
        using v vj assms(2) that
        by (simp add: merge_prop_def nestedOptions_def mergeOptions_frame)
    qed
    show ?thesis
      unfolding pv JObj mergeOptions_Cons_obj
      using here by (simp add: IH split: option.splits)
  qed (simp_all add: pv IH)
qed

lemma options_assignIdentity:
  "assignIdentity env opts c g = Inr g' \<Longrightarrow> options g' = options g"
  by (auto simp: assignIdentity_def split: if_splits sum.splits)

lemma options_loadQueryHandler [simp]:
  "options (fst (loadQueryHandler env g)) = options g"
  by (simp add: loadQueryHandler_def split: sum.splits)

lemma connect_no_wallet:
  "\<not> truthy opts \<or> \<not> truthy (get opts ''wallet'') \<Longrightarrow>
   connect env cfg opts g =
     (g, Some (Error ''A wallet must be assigned to a Gateway instance''))"
  by (auto simp: connect_def)

lemma options_connect:
  assumes "truthy opts" and "truthy (get opts ''wallet'')"
  shows "options (fst (connect env cfg opts g)) =
         fst (mergeOptions (options (dropQueryHandlerOptions opts g)) (props_of opts))"
  using assms
  by (auto simp: connect_def Let_def dest: options_assignIdentity
      split: prod.splits option.splits sum.splits)

lemma isPlainObject_dropQueryHandlerOptions:
  "isPlainObject (options g) \<Longrightarrow> isPlainObject (options (dropQueryHandlerOptions opts g))"
  by (cases "options g") (simp_all add: dropQueryHandlerOptions_def)

section \<open>The merge in the store\<close>

text \<open>The two ways a round of the loop goes on.\<close>

lemma mergeLoop_nested_step:
  assumes "ref_nestedOptions p (read st s p) \<and> read st d p \<noteq> RUndefined"
  shows "mergeLoop 0 st d s (p # rest) = (st, Some RangeError)"
    and "mergeLoop (Suc n) st d s (p # rest) =
      (case mergeLoop n st (read st d p) (read st s p) (keys_of st (read st s p)) of
         (st1, Some e) \<Rightarrow> (st1, Some e)
       | (st1, None) \<Rightarrow> mergeLoop (Suc n) st1 d s rest)"
  using assms by simp_all

lemma mergeLoop_assign_step:
  assumes "\<not> (ref_nestedOptions p (read st s p) \<and> read st d p \<noteq> RUndefined)"
  shows "mergeLoop depth st d s (p # rest) =
      (case assign st d p (read st s p) of
         (st1, Some e) \<Rightarrow> (st1, Some e)
       | (st1, None) \<Rightarrow> mergeLoop depth st1 d s rest)"
  using assms by auto

declare mergeLoop.simps(2) [simp del]

text \<open>
  A merge of objects inside a closed region leaves the region closed and every object
  outside it as it was.
\<close>

lemma addr_read: "closed st X \<Longrightarrow> addr s \<subseteq> X \<Longrightarrow> addr (read st s p) \<subseteq> X"
  by (cases s) (force simp: closed_def split: option.splits dest!: map_of_SomeD)+

lemma set_update_subset: "set (AList.update k v al) \<subseteq> insert (k, v) (set al)"
  by (induction al) auto

lemma assign_local:
  assumes "closed st X" and "addr d \<subseteq> X" and "addr v \<subseteq> X"
    and "assign st d p v = (st1, e)"
  shows "closed st1 X \<and> (\<forall>y. y \<notin> X \<longrightarrow> st1 y = st y)"
proof (cases d)
  case (RObj a)
  with assms have a: "a \<in> X" and st1: "st1 = st(a := AList.update p v (st a))"
    by auto
  have "closed st1 X"
    unfolding closed_def
  proof (intro ballI)
    fix x w assume x: "x \<in> X" and w: "w \<in> snd ` set (st1 x)"
    show "addr w \<subseteq> X"
    proof (cases "x = a")
      case True
      with w st1 have "w = v \<or> w \<in> snd ` set (st a)"
        using set_update_subset [of p v "st a"] by auto
      with assms(1,3) a show ?thesis
        by (auto simp: closed_def)
    next
      case False
      with w st1 assms(1) x show ?thesis
        by (auto simp: closed_def)
    qed
  qed
  with a st1 show ?thesis by auto
qed (use assms in auto)

lemma mergeLoop_local:
  "closed st X \<Longrightarrow> addr d \<subseteq> X \<Longrightarrow> addr s \<subseteq> X \<Longrightarrow>
   mergeLoop depth st d s ks = (st', e) \<Longrightarrow>
   closed st' X \<and> (\<forall>y. y \<notin> X \<longrightarrow> st' y = st y)"
proof (induction depth st d s ks arbitrary: st' e rule: mergeLoop.induct)
  case (1 depth st d s)
  then show ?case by simp
next
  case (2 depth st d s p rest)
  let ?v = "read st s p"
  have v: "addr ?v \<subseteq> X" using "2.prems"(1,3) by (rule addr_read)
  have dp: "addr (read st d p) \<subseteq> X" using "2.prems"(1,2) by (rule addr_read)
  show ?case
  proof (cases "ref_nestedOptions p ?v \<and> read st d p \<noteq> RUndefined")
    case True
    then have nst: "ref_nestedOptions p ?v" and def: "read st d p \<noteq> RUndefined"
      by simp_all
    show ?thesis
    proof (cases depth)
      case 0
      with mergeLoop_nested_step(1) [OF True] "2.prems" show ?thesis by simp
    next
      case (Suc n)
      obtain st1 e1 where n: "mergeLoop n st (read st d p) ?v (keys_of st ?v) = (st1, e1)"
        by (cases "mergeLoop n st (read st d p) ?v (keys_of st ?v)")
      from "2.IH"(2) [OF nst def Suc "2.prems"(1) dp v n]
      have c1: "closed st1 X" and f1: "\<forall>y. y \<notin> X \<longrightarrow> st1 y = st y" by simp_all
      show ?thesis
      proof (cases e1)
        case None
        with mergeLoop_nested_step(2) [OF True, of n rest] Suc n "2.prems"(4)
        have r: "mergeLoop depth st1 d s rest = (st', e)"
          by simp
        from "2.IH"(3) [OF nst def Suc n [symmetric] None c1 "2.prems"(2,3) r] f1
        show ?thesis by simp
      next
        case (Some err)
        with mergeLoop_nested_step(2) [OF True, of n rest] Suc n "2.prems"(4)
        have "st' = st1" by simp
        with c1 f1 show ?thesis by simp
      qed
    qed
  next
    case False
    obtain st1 e1 where a: "assign st d p ?v = (st1, e1)"
      by (cases "assign st d p ?v")
    from assign_local [OF "2.prems"(1,2) v a]
    have c1: "closed st1 X" and f1: "\<forall>y. y \<notin> X \<longrightarrow> st1 y = st y" by simp_all
    show ?thesis
    proof (cases e1)
      case None
      with mergeLoop_assign_step [OF False, of depth rest] a "2.prems"(4)
      have r: "mergeLoop depth st1 d s rest = (st', e)"
        by simp
      have "closed st' X \<and> (\<forall>y. y \<notin> X \<longrightarrow> st' y = st1 y)"
      proof (cases "ref_nestedOptions p ?v")
        case True
        with False have u: "read st d p = RUndefined" by simp
        from "2.IH"(1) [OF True u a [symmetric] None c1 "2.prems"(2,3) r] show ?thesis .
      next
        case False
        from "2.IH"(4) [OF False a [symmetric] None c1 "2.prems"(2,3) r] show ?thesis .
      qed
      with f1 show ?thesis by simp
    next
      case (Some err)
      with mergeLoop_assign_step [OF False, of depth rest] a "2.prems"(4)
      have "st' = st1" by simp
      with c1 f1 show ?thesis by simp
    qed
  qed
qed

text \<open>
  On two stores that agree on a closed region, a merge of objects inside the region has
  the same outcome and leaves the region the same.
\<close>

lemma read_agree: "addr d \<subseteq> X \<Longrightarrow> \<forall>x\<in>X. st2 x = st1 x \<Longrightarrow> read st2 d p = read st1 d p"
  by (cases d) simp_all

lemma keys_of_agree:
  "addr d \<subseteq> X \<Longrightarrow> \<forall>x\<in>X. st2 x = st1 x \<Longrightarrow> keys_of st2 d = keys_of st1 d"
  by (cases d) simp_all

lemma assign_agree:
  assumes "addr d \<subseteq> X" and "\<forall>x\<in>X. st2 x = st1 x"
  shows "snd (assign st2 d p v) = snd (assign st1 d p v)
       \<and> (\<forall>x\<in>X. fst (assign st2 d p v) x = fst (assign st1 d p v) x)"
  using assms by (cases d) simp_all

lemma mergeLoop_agree:
  "closed st1 X \<Longrightarrow> addr d \<subseteq> X \<Longrightarrow> addr s \<subseteq> X \<Longrightarrow> \<forall>x\<in>X. st2 x = st1 x \<Longrightarrow>
   snd (mergeLoop depth st2 d s ks) = snd (mergeLoop depth st1 d s ks)
   \<and> (\<forall>x\<in>X. fst (mergeLoop depth st2 d s ks) x = fst (mergeLoop depth st1 d s ks) x)"
proof (induction depth st1 d s ks arbitrary: st2 rule: mergeLoop.induct)
  case (1 depth st d s)
  then show ?case by simp
next
  case (2 depth st1 d s p rest)
  let ?v = "read st1 s p"
  have v: "addr ?v \<subseteq> X" using "2.prems"(1,3) by (rule addr_read)
  have dp: "addr (read st1 d p) \<subseteq> X" using "2.prems"(1,2) by (rule addr_read)
  have rs: "read st2 s p = ?v" using "2.prems"(3,4) by (rule read_agree)
  have rd: "read st2 d p = read st1 d p" using "2.prems"(2,4) by (rule read_agree)
  have ks: "keys_of st2 ?v = keys_of st1 ?v" using v "2.prems"(4) by (rule keys_of_agree)
  show ?case
  proof (cases "ref_nestedOptions p ?v \<and> read st1 d p \<noteq> RUndefined")
    case True
    then have True2: "ref_nestedOptions p (read st2 s p) \<and> read st2 d p \<noteq> RUndefined"
      by (simp add: rs rd)
    from True have nst: "ref_nestedOptions p ?v" and def: "read st1 d p \<noteq> RUndefined"
      by simp_all
    show ?thesis
    proof (cases depth)
      case 0
      with mergeLoop_nested_step(1) [OF True] mergeLoop_nested_step(1) [OF True2] "2.prems"(4)
      show ?thesis by simp
    next
      case (Suc n)
      obtain m1 e1 where n1: "mergeLoop n st1 (read st1 d p) ?v (keys_of st1 ?v) = (m1, e1)"
        by (cases "mergeLoop n st1 (read st1 d p) ?v (keys_of st1 ?v)")
      obtain m2 e2 where n2: "mergeLoop n st2 (read st1 d p) ?v (keys_of st1 ?v) = (m2, e2)"
        by (cases "mergeLoop n st2 (read st1 d p) ?v (keys_of st1 ?v)")
      from "2.IH"(2) [OF nst def Suc "2.prems"(1) dp v "2.prems"(4)] n1 n2
      have e: "e2 = e1" and m: "\<forall>x\<in>X. m2 x = m1 x" by simp_all
      from mergeLoop_local [OF "2.prems"(1) dp v n1] have c1: "closed m1 X" by simp
      have s1: "mergeLoop depth st1 d s (p # rest) =
          (case e1 of Some err \<Rightarrow> (m1, Some err) | None \<Rightarrow> mergeLoop depth m1 d s rest)"
        using mergeLoop_nested_step(2) [OF True, of n rest] Suc n1 by (cases e1) simp_all
      have s2: "mergeLoop depth st2 d s (p # rest) =
          (case e1 of Some err \<Rightarrow> (m2, Some err) | None \<Rightarrow> mergeLoop depth m2 d s rest)"
        using mergeLoop_nested_step(2) [OF True2, of n rest] Suc n2 e rs rd ks
        by (cases e1) simp_all
      show ?thesis
      proof (cases e1)
        case None
        from "2.IH"(3) [OF nst def Suc n1 [symmetric] None c1 "2.prems"(2,3) m]
        show ?thesis unfolding s1 s2 None by simp
      next
        case (Some err)
        with m show ?thesis unfolding s1 s2 by simp
      qed
    qed
  next
    case False
    then have False2: "\<not> (ref_nestedOptions p (read st2 s p) \<and> read st2 d p \<noteq> RUndefined)"
      by (simp add: rs rd)
    obtain m1 e1 where a1: "assign st1 d p ?v = (m1, e1)"
      by (cases "assign st1 d p ?v")
    obtain m2 e2 where a2: "assign st2 d p ?v = (m2, e2)"
      by (cases "assign st2 d p ?v")
    from assign_agree [OF "2.prems"(2,4), of p ?v] a1 a2
    have e: "e2 = e1" and m: "\<forall>x\<in>X. m2 x = m1 x" by simp_all
    from assign_local [OF "2.prems"(1,2) v a1] have c1: "closed m1 X" by simp
    have s1: "mergeLoop depth st1 d s (p # rest) =
        (case e1 of Some err \<Rightarrow> (m1, Some err) | None \<Rightarrow> mergeLoop depth m1 d s rest)"
      using mergeLoop_assign_step [OF False, of depth rest] a1 by (cases e1) simp_all
    have s2: "mergeLoop depth st2 d s (p # rest) =
        (case e1 of Some err \<Rightarrow> (m2, Some err) | None \<Rightarrow> mergeLoop depth m2 d s rest)"
      using mergeLoop_assign_step [OF False2, of depth rest] a2 e rs by (cases e1) simp_all
    show ?thesis
    proof (cases e1)
      case None
      have "snd (mergeLoop depth m2 d s rest) = snd (mergeLoop depth m1 d s rest)
          \<and> (\<forall>x\<in>X. fst (mergeLoop depth m2 d s rest) x = fst (mergeLoop depth m1 d s rest) x)"
      proof (cases "ref_nestedOptions p ?v")
        case True
        with False have u: "read st1 d p = RUndefined" by simp
        from "2.IH"(1) [OF True u a1 [symmetric] None c1 "2.prems"(2,3) m] show ?thesis .
      next
        case False
        from "2.IH"(4) [OF False a1 [symmetric] None c1 "2.prems"(2,3) m] show ?thesis .
      qed
      then show ?thesis unfolding s1 s2 None by simp
    next
      case (Some err)
      with m show ?thesis unfolding s1 s2 by simp
    qed
  qed
qed

text \<open>
  A deeper call stack changes no outcome other than the RangeError.
\<close>

lemma mergeLoop_deeper:
  "mergeLoop depth st d s ks = (st', e) \<Longrightarrow> e \<noteq> Some RangeError \<Longrightarrow>
   mergeLoop (Suc depth) st d s ks = (st', e)"
proof (induction depth st d s ks arbitrary: st' e rule: mergeLoop.induct)
  case (1 depth st d s)
  then show ?case by simp
next
  case (2 depth st d s p rest)
  let ?v = "read st s p"
  show ?case
  proof (cases "ref_nestedOptions p ?v \<and> read st d p \<noteq> RUndefined")
    case True
    then have nst: "ref_nestedOptions p ?v" and def: "read st d p \<noteq> RUndefined"
      by simp_all
    from mergeLoop_nested_step(1) [OF True] "2.prems" obtain n where Suc: "depth = Suc n"
      by (cases depth) auto
    obtain st1 e1 where n: "mergeLoop n st (read st d p) ?v (keys_of st ?v) = (st1, e1)"
      by (cases "mergeLoop n st (read st d p) ?v (keys_of st ?v)")
    show ?thesis
    proof (cases e1)
      case None
      with mergeLoop_nested_step(2) [OF True, of n rest] Suc n "2.prems"(1)
      have r: "mergeLoop depth st1 d s rest = (st', e)"
        by simp
      from "2.IH"(2) [OF nst def Suc n] None
      have n': "mergeLoop depth st (read st d p) ?v (keys_of st ?v) = (st1, None)"
        by (simp add: Suc)
      from "2.IH"(3) [OF nst def Suc n [symmetric] None r "2.prems"(2)]
      show ?thesis
        using mergeLoop_nested_step(2) [OF True, of depth rest] n' by simp
    next
      case (Some err)
      with mergeLoop_nested_step(2) [OF True, of n rest] Suc n "2.prems"(1)
      have eq: "st' = st1" "e = Some err" by simp_all
      with "2.prems"(2) Some have "e1 \<noteq> Some RangeError" by simp
      from "2.IH"(2) [OF nst def Suc n this] Some
      have n': "mergeLoop depth st (read st d p) ?v (keys_of st ?v) = (st1, Some err)"
        by (simp add: Suc)
      show ?thesis
        using mergeLoop_nested_step(2) [OF True, of depth rest] n' eq by simp
    qed
  next
    case False
    obtain st1 e1 where a: "assign st d p ?v = (st1, e1)"
      by (cases "assign st d p ?v")
    show ?thesis
    proof (cases e1)
      case None
      with mergeLoop_assign_step [OF False, of depth rest] a "2.prems"(1)
      have r: "mergeLoop depth st1 d s rest = (st', e)"
        by simp
      have "mergeLoop (Suc depth) st1 d s rest = (st', e)"
      proof (cases "ref_nestedOptions p ?v")
        case True
        with False have u: "read st d p = RUndefined" by simp
        from "2.IH"(1) [OF True u a [symmetric] None r "2.prems"(2)] show ?thesis .
      next
        case False
        from "2.IH"(4) [OF False a [symmetric] None r "2.prems"(2)] show ?thesis .
      qed
      with mergeLoop_assign_step [OF False, of "Suc depth" rest] a None show ?thesis
        by simp
    next
      case (Some err)
      with mergeLoop_assign_step [OF False, of depth rest]
        mergeLoop_assign_step [OF False, of "Suc depth" rest] a "2.prems"(1)
      show ?thesis by simp
    qed
  qed
qed

text \<open>The merge of separated objects, one key after the other.\<close>

lemma closed_agree: "\<forall>x\<in>X. st1 x = st x \<Longrightarrow> closed st X \<Longrightarrow> closed st1 X"
  by (simp add: closed_def)

lemma read_same: "st1 a = st a \<Longrightarrow> read st1 (RObj a) k = read st (RObj a) k"
  by simp

lemma read_assign:
  "read (st(a := AList.update p v (st a))) (RObj a) k =
     (if k = p then v else read st (RObj a) k)"
  by (simp add: update_conv')

declare read.simps(1) [simp del]

lemma recursesOn_agree:
  "read st1 (RObj a) k = read st (RObj a) k \<Longrightarrow> read st1 (RObj b) k = read st (RObj b) k \<Longrightarrow>
   recursesOn st1 a b k = recursesOn st a b k"
  by (simp add: recursesOn_def)

lemma separated_onD:
  assumes "separated_on st a b R ks" and "k \<in> set ks" and "recursesOn st a b k"
  shows "closed st (R k)" and "addr (read st (RObj a) k) \<subseteq> R k"
    and "addr (read st (RObj b) k) \<subseteq> R k" and "a \<notin> R k" and "b \<notin> R k"
    and "\<And>k'. k' \<in> set ks \<Longrightarrow> k' \<noteq> k \<Longrightarrow> recursesOn st a b k' \<Longrightarrow> R k \<inter> R k' = {}"
proof -
  from assms(1) have "\<forall>k \<in> set ks. recursesOn st a b k \<longrightarrow>
            closed st (R k)
            \<and> addr (read st (RObj a) k) \<subseteq> R k \<and> addr (read st (RObj b) k) \<subseteq> R k
            \<and> a \<notin> R k \<and> b \<notin> R k
            \<and> (\<forall>k' \<in> set ks. k' \<noteq> k \<and> recursesOn st a b k' \<longrightarrow> R k \<inter> R k' = {})"
    unfolding separated_on_def by (elim conjE)
  from this [rule_format, OF assms(2,3)]
  have all: "closed st (R k)
            \<and> addr (read st (RObj a) k) \<subseteq> R k \<and> addr (read st (RObj b) k) \<subseteq> R k
            \<and> a \<notin> R k \<and> b \<notin> R k
            \<and> (\<forall>k' \<in> set ks. k' \<noteq> k \<and> recursesOn st a b k' \<longrightarrow> R k \<inter> R k' = {})" .
  from all show "closed st (R k)" by (elim conjE)
  from all show "addr (read st (RObj a) k) \<subseteq> R k" by (elim conjE)
  from all show "addr (read st (RObj b) k) \<subseteq> R k" by (elim conjE)
  from all show "a \<notin> R k" by (elim conjE)
  from all show "b \<notin> R k" by (elim conjE)
  from all have dj: "\<forall>k' \<in> set ks. k' \<noteq> k \<and> recursesOn st a b k' \<longrightarrow> R k \<inter> R k' = {}"
    by (elim conjE)
  show "R k \<inter> R k' = {}" if "k' \<in> set ks" "k' \<noteq> k" "recursesOn st a b k'" for k'
    using dj that by blast
qed

lemma separated_onI:
  assumes "a \<noteq> b" and "distinct ks"
    and "\<And>k. k \<in> set ks \<Longrightarrow> recursesOn st a b k \<Longrightarrow>
            closed st (R k)
            \<and> addr (read st (RObj a) k) \<subseteq> R k \<and> addr (read st (RObj b) k) \<subseteq> R k
            \<and> a \<notin> R k \<and> b \<notin> R k
            \<and> (\<forall>k' \<in> set ks. k' \<noteq> k \<and> recursesOn st a b k' \<longrightarrow> R k \<inter> R k' = {})"
  shows "separated_on st a b R ks"
  unfolding separated_on_def using assms by blast

lemma separated_on_rest:
  assumes sep: "separated_on st a b R (p # rest)"
    and b: "st1 b = st b"
    and a: "\<forall>k\<in>set rest. read st1 (RObj a) k = read st (RObj a) k"
    and r: "\<forall>k\<in>set rest. recursesOn st a b k \<longrightarrow> (\<forall>x\<in>R k. st1 x = st x)"
  shows "separated_on st1 a b R rest"
proof (rule separated_onI)
  from sep show "a \<noteq> b" "distinct rest"
    by (simp_all add: separated_on_def)
next
  have rb: "read st1 (RObj b) k = read st (RObj b) k" for k
    using b by (rule read_same)
  have rec: "recursesOn st1 a b k = recursesOn st a b k" if "k \<in> set rest" for k
    using a [rule_format, OF that] rb by (rule recursesOn_agree)
  fix k assume k: "k \<in> set rest" and rk1: "recursesOn st1 a b k"
  from rk1 rec [OF k] have rk: "recursesOn st a b k" by simp
  from k have k': "k \<in> set (p # rest)" by simp
  note D = separated_onD [OF sep k' rk]
  from r k rk have "\<forall>x\<in>R k. st1 x = st x" by simp
  then have c: "closed st1 (R k)" using D(1) by (rule closed_agree)
  have dj: "R k \<inter> R k' = {}" if "k' \<in> set rest" "k' \<noteq> k" "recursesOn st1 a b k'" for k'
  proof -
    from that rec have "recursesOn st a b k'" by simp
    with D(6) [of k'] that show ?thesis by simp
  qed
  from c D(2-5) a [rule_format, OF k] rb [of k] dj
  show "closed st1 (R k)
        \<and> addr (read st1 (RObj a) k) \<subseteq> R k \<and> addr (read st1 (RObj b) k) \<subseteq> R k
        \<and> a \<notin> R k \<and> b \<notin> R k
        \<and> (\<forall>k' \<in> set rest. k' \<noteq> k \<and> recursesOn st1 a b k' \<longrightarrow> R k \<inter> R k' = {})"
    by simp
qed

lemma loop_result_step:
  assumes sep: "separated_on st a b R (p # rest)"
    and mb: "m b = st b"
    and ma: "\<And>k. k \<noteq> p \<Longrightarrow> read m (RObj a) k = read st (RObj a) k"
    and fr: "\<And>y. y \<noteq> a \<Longrightarrow> (recursesOn st a b p \<Longrightarrow> y \<notin> R p) \<Longrightarrow> m y = st y"
    and hp: "read m (RObj a) p =
        (if recursesOn st a b p then read st (RObj a) p else read st (RObj b) p)"
    and np: "recursesOn st a b p \<Longrightarrow>
        \<exists>n. depth = Suc n
          \<and> snd (mergeOptions_store n st (read st (RObj a) p) (read st (RObj b) p)) = None
          \<and> (\<forall>x\<in>R p. m x =
                fst (mergeOptions_store n st (read st (RObj a) p) (read st (RObj b) p)) x)"
    and IH: "loop_result depth R m a b rest st'"
  shows "loop_result depth R st a b (p # rest) st'"
proof -
  from sep have ab: "a \<noteq> b" and p: "p \<notin> set rest"
    by (simp_all add: separated_on_def)
  have rb: "read m (RObj b) k = read st (RObj b) k" for k
    using mb by (rule read_same)
  have rec: "recursesOn m a b k = recursesOn st a b k" if "k \<noteq> p" for k
    using ma [OF that] rb by (rule recursesOn_agree)
  have recr: "recursesOn m a b k = recursesOn st a b k" if "k \<in> set rest" for k
  proof -
    from that p have "k \<noteq> p" by auto
    then show ?thesis by (rule rec)
  qed
  have region: "closed st (R k) \<and> addr (read st (RObj a) k) \<subseteq> R k
      \<and> addr (read st (RObj b) k) \<subseteq> R k \<and> a \<notin> R k \<and> b \<notin> R k"
    if "k \<in> set (p # rest)" "recursesOn st a b k" for k
    using separated_onD(1-5) [OF sep that] by simp
  have disjoint: "R k \<inter> R k' = {}"
    if "k \<in> set (p # rest)" "recursesOn st a b k" "k' \<in> set (p # rest)"
      "recursesOn st a b k'" "k' \<noteq> k" for k k'
    using separated_onD(6) [OF sep that(1,2,3) that(5) that(4)] .
  have agree: "m x = st x" if "k \<in> set rest" "recursesOn st a b k" "x \<in> R k" for k x
  proof (rule fr)
    from region [of k] that show "x \<noteq> a" by auto
  next
    assume rp: "recursesOn st a b p"
    from that(1) p have "k \<noteq> p" by auto
    with disjoint [of p k] rp that show "x \<notin> R p" by auto
  qed
  note IH' = IH [unfolded loop_result_def]
  note IH1 = IH' [THEN conjunct1]
  note IH2 = IH' [THEN conjunct2, THEN conjunct1, rule_format]
  note IH3 = IH' [THEN conjunct2, THEN conjunct2, THEN conjunct1, rule_format]
  note IH4 = IH' [THEN conjunct2, THEN conjunct2, THEN conjunct2, THEN conjunct1, rule_format]
  note IH5 = IH' [THEN conjunct2, THEN conjunct2, THEN conjunct2, THEN conjunct2, rule_format]
  have 1: "st' b = st b" using IH1 mb by simp
  have 2: "st' y = st y"
    if y: "y \<noteq> a" and out: "\<forall>k\<in>set (p # rest). recursesOn st a b k \<longrightarrow> y \<notin> R k" for y
  proof -
    have "m y = st y" using y out by (intro fr) simp_all
    moreover have "y \<noteq> a \<and> (\<forall>k\<in>set rest. recursesOn m a b k \<longrightarrow> y \<notin> R k)"
      using y out recr by simp
    then have "st' y = m y" by (rule IH2)
    ultimately show ?thesis by simp
  qed
  have 3: "read st' (RObj a) k = read st (RObj a) k" if "k \<notin> set (p # rest)" for k
  proof -
    from that have "k \<notin> set rest" "k \<noteq> p" by simp_all
    with IH3 [of k] ma [of k] show ?thesis by simp
  qed
  have 4: "read st' (RObj a) k =
      (if recursesOn st a b k then read st (RObj a) k else read st (RObj b) k)"
    if "k \<in> set (p # rest)" for k
  proof (cases "k = p")
    case True
    with IH3 [of p] p hp show ?thesis by simp
  next
    case False
    with that have kr: "k \<in> set rest" by simp
    from IH4 [OF kr] recr [OF kr] ma [OF False] rb [of k] show ?thesis by simp
  qed
  have 5: "\<exists>n. depth = Suc n
        \<and> snd (mergeOptions_store n st (read st (RObj a) k) (read st (RObj b) k)) = None
        \<and> (\<forall>x\<in>R k. st' x =
              fst (mergeOptions_store n st (read st (RObj a) k) (read st (RObj b) k)) x)"
    if k: "k \<in> set (p # rest)" and rk: "recursesOn st a b k" for k
  proof (cases "k = p")
    case True
    from np rk True obtain n where n: "depth = Suc n"
      and ok: "snd (mergeOptions_store n st (read st (RObj a) p) (read st (RObj b) p)) = None"
      and res: "\<forall>x\<in>R p. m x =
          fst (mergeOptions_store n st (read st (RObj a) p) (read st (RObj b) p)) x"
      by blast
    have "st' x = m x" if x: "x \<in> R p" for x
    proof (rule IH2, intro conjI ballI impI)
      from region [of p] rk True x show "x \<noteq> a" by auto
    next
      fix k' assume k': "k' \<in> set rest" and "recursesOn m a b k'"
      with recr have rk': "recursesOn st a b k'" by simp
      from k' p have "k' \<noteq> p" by auto
      with disjoint [of p k'] rk True k' rk' x show "x \<notin> R k'" by auto
    qed
    with n ok res True show ?thesis by auto
  next
    case False
    with k have kr: "k \<in> set rest" by simp
    from recr [OF kr] rk have rm: "recursesOn m a b k" by simp
    from IH5 [OF kr rm] ma [OF False] rb [of k] obtain n' where n': "depth = Suc n'"
      and ok: "snd (mergeOptions_store n' m (read st (RObj a) k) (read st (RObj b) k)) = None"
      and res: "\<forall>x\<in>R k. st' x =
          fst (mergeOptions_store n' m (read st (RObj a) k) (read st (RObj b) k)) x"
      by auto
    from region [OF k rk] have ck: "closed st (R k)"
      and adk: "addr (read st (RObj a) k) \<subseteq> R k" "addr (read st (RObj b) k) \<subseteq> R k"
      by simp_all
    have ag: "\<forall>x\<in>R k. m x = st x" using agree [OF kr rk] by simp
    have kk: "keys_of m (read st (RObj b) k) = keys_of st (read st (RObj b) k)"
      using adk(2) ag by (rule keys_of_agree)
    from mergeLoop_agree [OF ck adk ag, of n' "keys_of st (read st (RObj b) k)"] kk
    have "snd (mergeOptions_store n' m (read st (RObj a) k) (read st (RObj b) k)) =
          snd (mergeOptions_store n' st (read st (RObj a) k) (read st (RObj b) k))"
      and "\<forall>x\<in>R k. fst (mergeOptions_store n' m (read st (RObj a) k) (read st (RObj b) k)) x =
          fst (mergeOptions_store n' st (read st (RObj a) k) (read st (RObj b) k)) x"
      by (simp_all add: mergeOptions_store_def)
    with n' ok res show ?thesis by auto
  qed
  from 1 2 3 4 5 show ?thesis
    unfolding loop_result_def by blast
qed

lemma mergeLoop_separated:
  assumes "separated_on st a b R ks"
    and "mergeLoop depth st (RObj a) (RObj b) ks = (st', None)"
  shows "loop_result depth R st a b ks st'"
  using assms
proof (induction ks arbitrary: st)
  case Nil
  then show ?case by (simp add: loop_result_def)
next
  case (Cons p rest)
  note sep = Cons.prems(1)
  from sep have ab: "a \<noteq> b" and p: "p \<notin> set rest"
    by (simp_all add: separated_on_def)
  let ?d = "read st (RObj a) p" and ?v = "read st (RObj b) p"
  show ?case
  proof (cases "recursesOn st a b p")
    case True
    then have cond: "ref_nestedOptions p (read st (RObj b) p) \<and> read st (RObj a) p \<noteq> RUndefined"
      by (simp add: recursesOn_def)
    have pin: "p \<in> set (p # rest)" by simp
    note D = separated_onD [OF sep pin True]
    from D have c: "closed st (R p)" and ad: "addr ?d \<subseteq> R p" "addr ?v \<subseteq> R p"
      and out: "a \<notin> R p" "b \<notin> R p"
      by simp_all
    have dj: "\<forall>k \<in> set rest. recursesOn st a b k \<longrightarrow> R p \<inter> R k = {}"
    proof (intro ballI impI)
      fix k assume k: "k \<in> set rest" and rk: "recursesOn st a b k"
      from k p have "k \<noteq> p" by auto
      with D(6) [of k] k rk show "R p \<inter> R k = {}" by simp
    qed
    from Cons.prems(2) mergeLoop_nested_step(1) [OF cond] obtain n where n: "depth = Suc n"
      by (cases depth) auto
    obtain m e1 where nested: "mergeLoop n st ?d ?v (keys_of st ?v) = (m, e1)"
      by (cases "mergeLoop n st ?d ?v (keys_of st ?v)")
    from Cons.prems(2) mergeLoop_nested_step(2) [OF cond, of n rest] n nested
    have e1: "e1 = None"
      by (cases e1) simp_all
    from Cons.prems(2) mergeLoop_nested_step(2) [OF cond, of n rest] n nested e1
    have rest: "mergeLoop depth m (RObj a) (RObj b) rest = (st', None)"
      by simp
    from mergeLoop_local [OF c ad nested] have fr: "\<And>y. y \<notin> R p \<Longrightarrow> m y = st y"
      by simp
    from fr out have ma: "m a = st a" and mb: "m b = st b" by simp_all
    have sep': "separated_on m a b R rest"
    proof (rule separated_on_rest [where ?st1.0 = m, OF sep mb])
      have "read m (RObj a) k = read st (RObj a) k" for k
        using ma by (rule read_same)
      then show "\<forall>k\<in>set rest. read m (RObj a) k = read st (RObj a) k"
        by simp
      show "\<forall>k\<in>set rest. recursesOn st a b k \<longrightarrow> (\<forall>x\<in>R k. m x = st x)"
        using dj fr by blast
    qed
    show ?thesis
    proof (rule loop_result_step [where m = m, OF sep mb _ _ _ _ Cons.IH [OF sep' rest]])
      show "read m (RObj a) k = read st (RObj a) k" for k
        using ma by (rule read_same)
      show "m y = st y" if "y \<noteq> a" "recursesOn st a b p \<Longrightarrow> y \<notin> R p" for y
        using that True fr by simp
      show "read m (RObj a) p =
          (if recursesOn st a b p then read st (RObj a) p else read st (RObj b) p)"
      proof -
        have "read m (RObj a) p = read st (RObj a) p"
          using ma by (rule read_same)
        with True show ?thesis by simp
      qed
      show "\<exists>n. depth = Suc n
          \<and> snd (mergeOptions_store n st (read st (RObj a) p) (read st (RObj b) p)) = None
          \<and> (\<forall>x\<in>R p. m x =
                fst (mergeOptions_store n st (read st (RObj a) p) (read st (RObj b) p)) x)"
        using n nested e1 by (simp add: mergeOptions_store_def)
    qed
  next
    case False
    then have cond: "\<not> (ref_nestedOptions p (read st (RObj b) p) \<and> read st (RObj a) p \<noteq> RUndefined)"
      by (simp add: recursesOn_def)
    let ?m = "st(a := AList.update p ?v (st a))"
    from Cons.prems(2) mergeLoop_assign_step [OF cond, of depth rest]
    have rest: "mergeLoop depth ?m (RObj a) (RObj b) rest = (st', None)"
      by simp
    have mb: "?m b = st b" using ab by simp
    have ra: "read ?m (RObj a) k = read st (RObj a) k" if "k \<noteq> p" for k
      using that by (simp add: read_assign)
    have outk: "a \<notin> R k" if "k \<in> set rest" "recursesOn st a b k" for k
    proof -
      from that(1) have "k \<in> set (p # rest)" by simp
      from separated_onD(4) [OF sep this that(2)] show ?thesis .
    qed
    have sep': "separated_on ?m a b R rest"
    proof (rule separated_on_rest [where ?st1.0 = "?m", OF sep mb])
      show "\<forall>k\<in>set rest. read ?m (RObj a) k = read st (RObj a) k"
      proof
        fix k assume "k \<in> set rest"
        with p have "k \<noteq> p" by auto
        then show "read ?m (RObj a) k = read st (RObj a) k" by (rule ra)
      qed
      show "\<forall>k\<in>set rest. recursesOn st a b k \<longrightarrow> (\<forall>x\<in>R k. ?m x = st x)"
        using outk by auto
    qed
    show ?thesis
    proof (rule loop_result_step [where m = "?m", OF sep mb _ _ _ _ Cons.IH [OF sep' rest]])
      show "read ?m (RObj a) k = read st (RObj a) k" if "k \<noteq> p" for k
        using that by (rule ra)
      show "?m y = st y" if "y \<noteq> a" for y
        using that by simp
      show "read ?m (RObj a) p =
          (if recursesOn st a b p then read st (RObj a) p else read st (RObj b) p)"
        using False by (simp add: read_assign)
      show "\<exists>n. depth = Suc n
          \<and> snd (mergeOptions_store n st (read st (RObj a) p) (read st (RObj b) p)) = None
          \<and> (\<forall>x\<in>R p. ?m x =
                fst (mergeOptions_store n st (read st (RObj a) p) (read st (RObj b) p)) x)"
        if "recursesOn st a b p"
        using that False by simp
    qed
  qed
qed

lemma dropQueryHandlerOptions_store_other:
  "y \<noteq> d \<Longrightarrow> dropQueryHandlerOptions_store st (RObj d) opts y = st y"
  by (simp add: dropQueryHandlerOptions_store_def)

lemma read_dropQueryHandlerOptions_store:
  "k \<noteq> ''queryHandlerOptions'' \<Longrightarrow>
   read (dropQueryHandlerOptions_store st (RObj d) opts) (RObj d) k = read st (RObj d) k"
  by (simp add: dropQueryHandlerOptions_store_def read.simps delete_conv')

lemma connect_options_result:
  assumes wallet: "ref_truthy (read st (RObj s) ''wallet'')"
    and sep: "separated (dropQueryHandlerOptions_store st (RObj d) (RObj s)) d s R"
    and ok: "connect_options depth st (RObj d) (RObj s) = (st', None)"
  shows "loop_result depth R (dropQueryHandlerOptions_store st (RObj d) (RObj s)) d s
           (map fst (st s)) st'"
proof -
  let ?st1 = "dropQueryHandlerOptions_store st (RObj d) (RObj s)"
  from sep have "d \<noteq> s" by (simp add: separated_def separated_on_def)
  then have s: "?st1 s = st s" by (simp add: dropQueryHandlerOptions_store_other)
  from ok wallet have "mergeLoop depth ?st1 (RObj d) (RObj s) (map fst (st s)) = (st', None)"
    by (simp add: connect_options_def mergeOptions_store_def s)
  moreover from sep s have "separated_on ?st1 d s R (map fst (st s))"
    by (simp add: separated_def)
  ultimately show ?thesis by (rule mergeLoop_separated [rotated])
qed

lemma loop_resultD:
  assumes "loop_result depth R st a b ks st'"
  shows "st' b = st b"
    and "\<And>y. y \<noteq> a \<Longrightarrow> (\<And>k. k \<in> set ks \<Longrightarrow> recursesOn st a b k \<Longrightarrow> y \<notin> R k) \<Longrightarrow>
           st' y = st y"
    and "\<And>k. k \<notin> set ks \<Longrightarrow> read st' (RObj a) k = read st (RObj a) k"
    and "\<And>k. k \<in> set ks \<Longrightarrow> read st' (RObj a) k =
           (if recursesOn st a b k then read st (RObj a) k else read st (RObj b) k)"
    and "\<And>k. k \<in> set ks \<Longrightarrow> recursesOn st a b k \<Longrightarrow>
           \<exists>n. depth = Suc n
             \<and> snd (mergeOptions_store n st (read st (RObj a) k) (read st (RObj b) k)) = None
             \<and> (\<forall>x\<in>R k. st' x =
                   fst (mergeOptions_store n st (read st (RObj a) k) (read st (RObj b) k)) x)"
proof -
  note r = assms [unfolded loop_result_def]
  from r show "st' b = st b" by (rule conjunct1)
  show "st' y = st y"
    if "y \<noteq> a" "\<And>k. k \<in> set ks \<Longrightarrow> recursesOn st a b k \<Longrightarrow> y \<notin> R k" for y
    using r [THEN conjunct2, THEN conjunct1, rule_format, of y] that by blast
  show "read st' (RObj a) k = read st (RObj a) k" if "k \<notin> set ks" for k
    using r [THEN conjunct2, THEN conjunct2, THEN conjunct1, rule_format, OF that] .
  show "read st' (RObj a) k =
      (if recursesOn st a b k then read st (RObj a) k else read st (RObj b) k)"
    if "k \<in> set ks" for k
    using r [THEN conjunct2, THEN conjunct2, THEN conjunct2, THEN conjunct1, rule_format,
        OF that] .
  show "\<exists>n. depth = Suc n
       \<and> snd (mergeOptions_store n st (read st (RObj a) k) (read st (RObj b) k)) = None
       \<and> (\<forall>x\<in>R k. st' x =
             fst (mergeOptions_store n st (read st (RObj a) k) (read st (RObj b) k)) x)"
    if "k \<in> set ks" "recursesOn st a b k" for k
    using r [THEN conjunct2, THEN conjunct2, THEN conjunct2, THEN conjunct2, rule_format,
        OF that] .
qed

lemma loop_result_fields:
  assumes "loop_result depth R st a b (map fst (st b)) st'"
  shows "k \<notin> fst ` set (st b) \<Longrightarrow> read st' (RObj a) k = read st (RObj a) k"
    and "k \<in> fst ` set (st b) \<Longrightarrow> \<not> recursesOn st a b k \<Longrightarrow>
           read st' (RObj a) k = read st (RObj b) k"
    and "k \<in> fst ` set (st b) \<Longrightarrow> recursesOn st a b k \<Longrightarrow>
           read st' (RObj a) k = read st (RObj a) k"
proof -
  show "read st' (RObj a) k = read st (RObj a) k" if "k \<notin> fst ` set (st b)"
    using that by (intro loop_resultD(3) [OF assms]) simp
  have in_keys: "k \<in> set (map fst (st b))" if "k \<in> fst ` set (st b)"
    using that by simp
  show "read st' (RObj a) k = read st (RObj b) k"
    if "k \<in> fst ` set (st b)" "\<not> recursesOn st a b k"
    using loop_resultD(4) [OF assms in_keys [OF that(1)]] that(2) by simp
  show "read st' (RObj a) k = read st (RObj a) k"
    if "k \<in> fst ` set (st b)" "recursesOn st a b k"
    using loop_resultD(4) [OF assms in_keys [OF that(1)]] that(2) by simp
qed

lemma loop_result_nested:
  assumes "loop_result depth R st a b (map fst (st b)) st'"
    and "k \<in> fst ` set (st b)" and "recursesOn st a b k"
  shows "\<exists>n stn. depth = Suc n
      \<and> mergeOptions_store n st (read st (RObj a) k) (read st (RObj b) k) = (stn, None)
      \<and> (\<forall>x\<in>R k. st' x = stn x)"
proof -
  from assms(2) have "k \<in> set (map fst (st b))" by simp
  from loop_resultD(5) [OF assms(1) this assms(3)] obtain n where n: "depth = Suc n"
    and ok: "snd (mergeOptions_store n st (read st (RObj a) k) (read st (RObj b) k)) = None"
    and res: "\<forall>x\<in>R k. st' x =
        fst (mergeOptions_store n st (read st (RObj a) k) (read st (RObj b) k)) x"
    by blast
  from ok have "mergeOptions_store n st (read st (RObj a) k) (read st (RObj b) k) =
      (fst (mergeOptions_store n st (read st (RObj a) k) (read st (RObj b) k)), None)"
    by (simp add: prod_eq_iff)
  with n res show ?thesis by blast
qed

lemma mergeOptions_store_separated:
  assumes "separated st a b R"
    and "mergeOptions_store depth st (RObj a) (RObj b) = (st', None)"
  shows "loop_result depth R st a b (map fst (st b)) st'"
  using assms
  by (simp add: separated_def mergeOptions_store_def mergeLoop_separated)

text \<open>The fields of a nested options object after the merge into the object above it.\<close>

lemma nested_fields:
  assumes top: "loop_result depth R st d s (map fst (st s)) st'"
    and sepo: "separated st d s R"
    and k: "k \<in> fst ` set (st s)"
    and nested: "ref_nestedOptions k (read st (RObj s) k)"
    and a: "read st (RObj d) k = RObj a" and v: "read st (RObj s) k = RObj v"
    and sep2: "separated st a v R2"
  shows "(\<forall>j. j \<notin> fst ` set (st v) \<longrightarrow> read st' (RObj a) j = read st (RObj a) j)
       \<and> (\<forall>j. j \<in> fst ` set (st v) \<and> \<not> recursesOn st a v j \<longrightarrow>
             read st' (RObj a) j = read st (RObj v) j)
       \<and> (\<forall>j. j \<in> fst ` set (st v) \<and> recursesOn st a v j \<longrightarrow>
             read st' (RObj a) j = read st (RObj a) j)"
proof -
  from nested a have rec: "recursesOn st d s k"
    by (simp add: recursesOn_def)
  from loop_result_nested [OF top k rec] a v obtain n stn where
    run: "mergeOptions_store n st (RObj a) (RObj v) = (stn, None)"
    and res: "\<forall>x\<in>R k. st' x = stn x"
    by auto
  from k have k': "k \<in> set (map fst (st s))" by simp
  from separated_onD(2) [OF sepo [unfolded separated_def] k' rec] a have "a \<in> R k"
    by simp
  with res have "st' a = stn a" by simp
  then have rd: "read st' (RObj a) j = read stn (RObj a) j" for j
    by (rule read_same)
  from loop_result_fields [OF mergeOptions_store_separated [OF sep2 run]] rd
  show ?thesis by simp
qed

lemma read_absent: "k \<notin> fst ` set (st a) \<Longrightarrow> read st (RObj a) k = RUndefined"
  by (simp add: read.simps map_of_eq_None_iff [symmetric])

text \<open>
  C4, as the code has it. A \<open>connect\<close> whose options carry a wallet merges the
  supplied options \<open>s\<close> into the options \<open>d\<close> of the gateway, as the guard on the query
  handler left them, in place. When the two objects are separated and the merge runs
  through: a supplied property that is not an object under a name ending in
  \<^verbatim>\<open>Options\<close> replaces the gateway's value, and so does one that is, when the gateway
  has no value under that name (the gateway then holds the supplied object itself);
  otherwise the gateway keeps its own object under that name and the merge recurses into
  it, so that, when these two objects are separated in turn, its properties that the
  supplied object does not name are kept and those that it names are replaced, assigned
  or merged by the same rule. A property that the supplied options do not name is kept,
  and the supplied object is left as it was.
\<close>

theorem connect_options_structural_merge:
  assumes wallet: "ref_truthy (read st (RObj s) ''wallet'')"
    and guard: "st1 = dropQueryHandlerOptions_store st (RObj d) (RObj s)"
    and sep: "separated st1 d s R"
    and ok: "connect_options depth st (RObj d) (RObj s) = (st', None)"
  shows
    "(\<forall>k \<in> fst ` set (st1 s). \<not> ref_nestedOptions k (read st1 (RObj s) k) \<longrightarrow>
        read st' (RObj d) k = read st1 (RObj s) k)
   \<and> (\<forall>k \<in> fst ` set (st1 s). ref_nestedOptions k (read st1 (RObj s) k)
          \<and> read st1 (RObj d) k = RUndefined \<longrightarrow>
        read st' (RObj d) k = read st1 (RObj s) k)
   \<and> (\<forall>k \<in> fst ` set (st1 s). ref_nestedOptions k (read st1 (RObj s) k)
          \<and> read st1 (RObj d) k \<noteq> RUndefined \<longrightarrow>
        read st' (RObj d) k = read st1 (RObj d) k
        \<and> (\<forall>a v R2. read st1 (RObj d) k = RObj a \<and> read st1 (RObj s) k = RObj v
              \<and> separated st1 a v R2 \<longrightarrow>
              (\<forall>j. j \<notin> fst ` set (st1 v) \<longrightarrow> read st' (RObj a) j = read st1 (RObj a) j)
            \<and> (\<forall>j \<in> fst ` set (st1 v). \<not> ref_nestedOptions j (read st1 (RObj v) j) \<longrightarrow>
                  read st' (RObj a) j = read st1 (RObj v) j)
            \<and> (\<forall>j \<in> fst ` set (st1 v). ref_nestedOptions j (read st1 (RObj v) j)
                    \<and> read st1 (RObj a) j = RUndefined \<longrightarrow>
                  read st' (RObj a) j = read st1 (RObj v) j)
            \<and> (\<forall>j \<in> fst ` set (st1 v). ref_nestedOptions j (read st1 (RObj v) j)
                    \<and> read st1 (RObj a) j \<noteq> RUndefined \<longrightarrow>
                  read st' (RObj a) j = read st1 (RObj a) j)))
   \<and> (\<forall>k. k \<notin> fst ` set (st1 s) \<longrightarrow> read st' (RObj d) k = read st1 (RObj d) k)
   \<and> st1 s = st s \<and> st' s = st s"
proof -
  from sep have ds: "d \<noteq> s" by (simp add: separated_def separated_on_def)
  then have s1: "st1 s = st s"
    unfolding guard by (simp add: dropQueryHandlerOptions_store_other)
  have top: "loop_result depth R st1 d s (map fst (st1 s)) st'"
    using connect_options_result [OF wallet sep [unfolded guard] ok] s1 guard by simp
  note F = loop_result_fields [OF top]
  have 1: "read st' (RObj d) k = read st1 (RObj s) k"
    if "k \<in> fst ` set (st1 s)" "\<not> ref_nestedOptions k (read st1 (RObj s) k)" for k
    using F(2) [OF that(1)] that(2) by (simp add: recursesOn_def)
  have 2: "read st' (RObj d) k = read st1 (RObj s) k"
    if "k \<in> fst ` set (st1 s)" "read st1 (RObj d) k = RUndefined" for k
    using F(2) [OF that(1)] that(2) by (simp add: recursesOn_def)
  have 3: "read st' (RObj d) k = read st1 (RObj d) k"
    if "k \<in> fst ` set (st1 s)" "ref_nestedOptions k (read st1 (RObj s) k)"
      "read st1 (RObj d) k \<noteq> RUndefined" for k
    using F(3) [OF that(1)] that(2,3) by (simp add: recursesOn_def)
  have 4: "(\<forall>j. j \<notin> fst ` set (st1 v) \<longrightarrow> read st' (RObj a) j = read st1 (RObj a) j)
            \<and> (\<forall>j \<in> fst ` set (st1 v). \<not> ref_nestedOptions j (read st1 (RObj v) j) \<longrightarrow>
                  read st' (RObj a) j = read st1 (RObj v) j)
            \<and> (\<forall>j \<in> fst ` set (st1 v). ref_nestedOptions j (read st1 (RObj v) j)
                    \<and> read st1 (RObj a) j = RUndefined \<longrightarrow>
                  read st' (RObj a) j = read st1 (RObj v) j)
            \<and> (\<forall>j \<in> fst ` set (st1 v). ref_nestedOptions j (read st1 (RObj v) j)
                    \<and> read st1 (RObj a) j \<noteq> RUndefined \<longrightarrow>
                  read st' (RObj a) j = read st1 (RObj a) j)"
    if "k \<in> fst ` set (st1 s)" "ref_nestedOptions k (read st1 (RObj s) k)"
      "read st1 (RObj d) k = RObj a" "read st1 (RObj s) k = RObj v" "separated st1 a v R2"
    for k a v R2
  proof -
    note N = nested_fields [OF top sep that]
    note N1 = N [THEN conjunct1, rule_format]
    note N2 = N [THEN conjunct2, THEN conjunct1, rule_format]
    note N3 = N [THEN conjunct2, THEN conjunct2, rule_format]
    have a: "read st' (RObj a) j = read st1 (RObj a) j" if "j \<notin> fst ` set (st1 v)" for j
      using that by (rule N1)
    have b: "read st' (RObj a) j = read st1 (RObj v) j"
      if "j \<in> fst ` set (st1 v)" "\<not> ref_nestedOptions j (read st1 (RObj v) j)" for j
      by (rule N2) (use that in \<open>simp add: recursesOn_def\<close>)
    have c: "read st' (RObj a) j = read st1 (RObj v) j"
      if "j \<in> fst ` set (st1 v)" "read st1 (RObj a) j = RUndefined" for j
      by (rule N2) (use that in \<open>simp add: recursesOn_def\<close>)
    have d: "read st' (RObj a) j = read st1 (RObj a) j"
      if "j \<in> fst ` set (st1 v)" "ref_nestedOptions j (read st1 (RObj v) j)"
        "read st1 (RObj a) j \<noteq> RUndefined" for j
      by (rule N3) (use that in \<open>simp add: recursesOn_def\<close>)
    show ?thesis
      using a b c d by (intro conjI allI ballI impI) blast+
  qed
  have 5: "read st' (RObj d) k = read st1 (RObj d) k" if "k \<notin> fst ` set (st1 s)" for k
    using F(1) [OF that] .
  have 6: "st' s = st s"
    using loop_resultD(1) [OF top] s1 by simp
  show ?thesis
  proof (intro conjI ballI allI impI; (elim conjE)?)
    fix k assume "k \<in> fst ` set (st1 s)" "\<not> ref_nestedOptions k (read st1 (RObj s) k)"
    then show "read st' (RObj d) k = read st1 (RObj s) k" by (rule 1)
  next
    fix k assume "k \<in> fst ` set (st1 s)" "read st1 (RObj d) k = RUndefined"
    then show "read st' (RObj d) k = read st1 (RObj s) k" by (rule 2)
  next
    fix k assume "k \<in> fst ` set (st1 s)" "ref_nestedOptions k (read st1 (RObj s) k)"
      "read st1 (RObj d) k \<noteq> RUndefined"
    then show "read st' (RObj d) k = read st1 (RObj d) k" by (rule 3)
  next
    fix k a v R2 j
    assume h: "k \<in> fst ` set (st1 s)" "ref_nestedOptions k (read st1 (RObj s) k)"
      "read st1 (RObj d) k = RObj a" "read st1 (RObj s) k = RObj v" "separated st1 a v R2"
    note N = 4 [OF h]
    {
      assume "j \<notin> fst ` set (st1 v)"
      with N show "read st' (RObj a) j = read st1 (RObj a) j" by blast
    }
    {
      assume "j \<in> fst ` set (st1 v)" "\<not> ref_nestedOptions j (read st1 (RObj v) j)"
      with N show "read st' (RObj a) j = read st1 (RObj v) j" by blast
    }
    {
      assume "j \<in> fst ` set (st1 v)" "ref_nestedOptions j (read st1 (RObj v) j)"
        "read st1 (RObj a) j = RUndefined"
      with N show "read st' (RObj a) j = read st1 (RObj v) j" by blast
    }
    {
      assume "j \<in> fst ` set (st1 v)" "ref_nestedOptions j (read st1 (RObj v) j)"
        "read st1 (RObj a) j \<noteq> RUndefined"
      with N show "read st' (RObj a) j = read st1 (RObj a) j" by blast
    }
  next
    fix k assume "k \<notin> fst ` set (st1 s)"
    then show "read st' (RObj d) k = read st1 (RObj d) k" by (rule 5)
  next
    show "st1 s = st s" by (rule s1)
    show "st' s = st s" by (rule 6)
  qed
qed

lemmas store_defs =
  connect_options_def dropQueryHandlerOptions_store_def mergeOptions_store_def
  ref_nestedOptions_def endsWith_def read.simps mergeLoop.simps

lemma sample_connect_options:
  "connect_options 8 sample_store (RObj 0) (RObj 10) =
     (sample_store
        (2 := [(''commitTimeout'', RNum 100), (''strategy'', RHost 0)],
         0 := [(''queryHandler'', RStr ''./impl/query/defaultqueryhandler''),
               (''queryHandlerOptions'', RObj 1),
               (''eventHandlerOptions'', RObj 2),
               (''discovery'', RObj 12),
               (''wallet'', RHost 1),
               (''identity'', RStr ''admin'')]),
      None)"
  by (simp add: store_defs sample_store_def fun_upd_twist)

lemmas separated_defs =
  separated_def separated_on_def recursesOn_def closed_def ref_nestedOptions_def endsWith_def
  read.simps

lemma sample_guard:
  "dropQueryHandlerOptions_store sample_store (RObj 0) (RObj 10) = sample_store"
  by (simp add: dropQueryHandlerOptions_store_def sample_store_def read.simps)

lemma sample_separated: "separated sample_store 0 10 sample_regions"
  by (simp add: separated_defs sample_store_def sample_regions_def)

lemma sample_separated_nested: "separated sample_store 2 11 (\<lambda>k. {})"
  by (simp add: separated_defs sample_store_def)

theorem connect_options_structural_merge_witness:
  "snd (connect_options 8 sample_store (RObj 0) (RObj 10)) = None
   \<and> read (fst (connect_options 8 sample_store (RObj 0) (RObj 10))) (RObj 0) ''discovery'' =
     RObj 12
   \<and> read (fst (connect_options 8 sample_store (RObj 0) (RObj 10))) (RObj 0)
       ''eventHandlerOptions'' = RObj 2
   \<and> read (fst (connect_options 8 sample_store (RObj 0) (RObj 10))) (RObj 2)
       ''commitTimeout'' = RNum 100
   \<and> read (fst (connect_options 8 sample_store (RObj 0) (RObj 10))) (RObj 2)
       ''strategy'' = RHost 0
   \<and> read (fst (connect_options 8 sample_store (RObj 0) (RObj 10))) (RObj 0)
       ''queryHandler'' = RStr ''./impl/query/defaultqueryhandler''"
proof -
  let ?st' = "fst (connect_options 8 sample_store (RObj 0) (RObj 10))"
  have wallet: "ref_truthy (read sample_store (RObj 10) ''wallet'')"
    by (simp add: sample_store_def read.simps)
  have ok: "connect_options 8 sample_store (RObj 0) (RObj 10) = (?st', None)"
    by (simp add: sample_connect_options)
  note t = connect_options_structural_merge
    [OF wallet sample_guard [symmetric] sample_separated ok]
  have a: "read ?st' (RObj 0) ''discovery'' = RObj 12"
    using t [THEN conjunct1, rule_format, of "''discovery''"]
    by (simp add: sample_store_def read.simps ref_nestedOptions_def endsWith_def)
  have e: "''eventHandlerOptions'' \<in> fst ` set (sample_store 10)"
    and n: "ref_nestedOptions ''eventHandlerOptions''
              (read sample_store (RObj 10) ''eventHandlerOptions'')
            \<and> read sample_store (RObj 0) ''eventHandlerOptions'' \<noteq> RUndefined"
    by (simp_all add: sample_store_def read.simps ref_nestedOptions_def endsWith_def)
  note u = t [THEN conjunct2, THEN conjunct2, THEN conjunct1, rule_format, OF e n]
  have b: "read ?st' (RObj 0) ''eventHandlerOptions'' = RObj 2"
    using u [THEN conjunct1] by (simp add: sample_store_def read.simps)
  have objs: "read sample_store (RObj 0) ''eventHandlerOptions'' = RObj 2
      \<and> read sample_store (RObj 10) ''eventHandlerOptions'' = RObj 11
      \<and> separated sample_store 2 11 (\<lambda>k. {})"
    using sample_separated_nested by (simp add: sample_store_def read.simps)
  note w = u [THEN conjunct2, rule_format, OF objs]
  have c: "read ?st' (RObj 2) ''commitTimeout'' = RNum 100"
    using w [THEN conjunct2, THEN conjunct1, rule_format, of "''commitTimeout''"]
    by (simp add: sample_store_def read.simps ref_nestedOptions_def)
  have d: "read ?st' (RObj 2) ''strategy'' = RHost 0"
    using w [THEN conjunct1, rule_format, of "''strategy''"]
    by (simp add: sample_store_def read.simps)
  have f: "read ?st' (RObj 0) ''queryHandler'' =
      RStr ''./impl/query/defaultqueryhandler''"
    using t [THEN conjunct2, THEN conjunct2, THEN conjunct2, THEN conjunct1, rule_format,
        of "''queryHandler''"]
    by (simp add: sample_store_def read.simps)
  have r: "snd (connect_options 8 sample_store (RObj 0) (RObj 10)) = None"
    by (simp add: sample_connect_options)
  from r a b c d f show ?thesis by simp
qed

text \<open>
  C4, as the claim has it, for every supplied nested options object, fails where two
  names of the gateway's options hold one object. After a \<open>connect\<close> on a new gateway
  with one object under \<^verbatim>\<open>aOptions\<close> and \<^verbatim>\<open>bOptions\<close>, which stores that object
  under both names, a \<open>connect\<close> with \<^verbatim>\<open>{aOptions: {k: 1}, bOptions: {k: 2}}\<close>
  returns and leaves \<^verbatim>\<open>aOptions.k\<close> at 2: the supplied sub-field 1 does not
  override.
\<close>

theorem connect_shared_options_counterexample:
  "snd (connect_options 8 shared_store (RObj 0) (RObj 40)) = None
   \<and> snd (connect_options 8 (fst (connect_options 8 shared_store (RObj 0) (RObj 40)))
          (RObj 0) (RObj 50)) = None
   \<and> read shared_store (read shared_store (RObj 50) ''aOptions'') ''k'' = RNum 1
   \<and> read (fst (connect_options 8 (fst (connect_options 8 shared_store (RObj 0) (RObj 40)))
               (RObj 0) (RObj 50)))
        (read (fst (connect_options 8 (fst (connect_options 8 shared_store (RObj 0) (RObj 40)))
                 (RObj 0) (RObj 50)))
           (RObj 0) ''aOptions'')
        ''k'' = RNum 2"
  by (simp add: store_defs shared_store_def)

section \<open>The wallet and the identity at connect\<close>

lemma connect_skips_setUserContext:
  assumes "\<not> truthy (get opts ''identity'')"
  shows "connect (env\<lparr>setUserContext := f\<rparr>) cfg opts g = connect env cfg opts g"
proof -
  have a: "selectClient (env\<lparr>setUserContext := f\<rparr>) = selectClient env"
    by (rule ext) (simp add: selectClient_def split: config.splits)
  have b: "assignIdentity (env\<lparr>setUserContext := f\<rparr>) opts = assignIdentity env opts"
    using assms by (intro ext) (simp add: assignIdentity_def)
  have c: "assignTls (env\<lparr>setUserContext := f\<rparr>) = assignTls env"
    by (intro ext) (simp add: assignTls_def split: sum.splits)
  have d: "loadQueryHandler (env\<lparr>setUserContext := f\<rparr>) = loadQueryHandler env"
    by (intro ext) (simp add: loadQueryHandler_def split: sum.splits)
  show ?thesis
    unfolding connect_def by (simp only: a b c d)
qed

lemma currentIdentity_loadQueryHandler [simp]:
  "currentIdentity (fst (loadQueryHandler env g)) = currentIdentity g"
  by (simp add: loadQueryHandler_def split: sum.splits)

lemma currentIdentity_connect:
  assumes "\<not> truthy (get opts ''identity'')"
  shows "currentIdentity (fst (connect env cfg opts g)) = currentIdentity g"
  using assms
  by (auto simp: connect_def Let_def assignIdentity_def dropQueryHandlerOptions_def
      split: prod.splits option.splits sum.splits)

text \<open>
  C3, as the code has it. A call of \<open>connect\<close> whose options are missing or carry no
  wallet throws \<^verbatim>\<open>Error('A wallet must be assigned to a Gateway instance')\<close> at once
  and leaves the gateway as it was. An identity is not required: when the options carry a
  wallet and no identity, \<open>connect\<close> goes on without asking the wallet for a user
  context (its outcome is the same whatever \<^verbatim>\<open>setUserContext\<close> would answer) and the
  current identity stays what it was.
\<close>

theorem connect_requires_wallet:
  "(\<not> truthy opts \<or> \<not> truthy (get opts ''wallet'') \<longrightarrow>
      connect env cfg opts g =
        (g, Some (Error ''A wallet must be assigned to a Gateway instance'')))
   \<and> (truthy opts \<and> truthy (get opts ''wallet'') \<and> \<not> truthy (get opts ''identity'') \<longrightarrow>
        (\<forall>f. connect (env\<lparr>setUserContext := f\<rparr>) cfg opts g = connect env cfg opts g)
        \<and> getCurrentIdentity (fst (connect env cfg opts g)) = getCurrentIdentity g)"
  using connect_no_wallet [of opts env cfg g] connect_skips_setUserContext [of opts _ env cfg g]
    currentIdentity_connect [of opts env cfg g]
  by (simp add: getCurrentIdentity_def)

theorem connect_requires_wallet_witness:
  "connect sample_env (ClientInstance sample_client) (JObj [(''identity'', JStr ''admin'')])
     sample_gateway =
     (sample_gateway, Some (Error ''A wallet must be assigned to a Gateway instance''))
   \<and> connect (sample_env\<lparr>setUserContext := (\<lambda>w c l. Inl TypeError)\<rparr>)
        (ClientInstance sample_client) (JObj [(''wallet'', JRef 1)]) sample_gateway =
      connect sample_env (ClientInstance sample_client) (JObj [(''wallet'', JRef 1)])
        sample_gateway
   \<and> getCurrentIdentity (fst (connect sample_env (ClientInstance sample_client)
        (JObj [(''wallet'', JRef 1)]) sample_gateway)) =
      Some \<lparr>user_name = ''admin'', mspId = ''Org1MSP''\<rparr>"
proof -
  have a: "\<not> truthy (JObj [(''identity'', JStr ''admin'')])
      \<or> \<not> truthy (get (JObj [(''identity'', JStr ''admin'')]) ''wallet'')"
    by (simp add: get.simps)
  have b: "truthy (JObj [(''wallet'', JRef 1)])
      \<and> truthy (get (JObj [(''wallet'', JRef 1)]) ''wallet'')
      \<and> \<not> truthy (get (JObj [(''wallet'', JRef 1)]) ''identity'')"
    by (simp add: get.simps)
  have c: "getCurrentIdentity sample_gateway = Some \<lparr>user_name = ''admin'', mspId = ''Org1MSP''\<rparr>"
    by (simp add: getCurrentIdentity_def sample_gateway_def)
  from connect_requires_wallet [THEN conjunct1, rule_format, OF a]
    connect_requires_wallet [THEN conjunct2, rule_format, OF b, of sample_env
      "ClientInstance sample_client" sample_gateway] c
  show ?thesis by simp
qed

text \<open>
  C3, with the identity required as well, fails: options that carry a wallet and omit the
  identity make \<open>connect\<close> return without an error, with the client assigned and the
  query handler class loaded.
\<close>

theorem connect_without_identity_counterexample:
  "get (JObj [(''wallet'', JRef 1)]) ''identity'' = JUndefined
   \<and> connect sample_env (ClientInstance sample_client) (JObj [(''wallet'', JRef 1)])
       (new_Gateway (JRef 0) (JBool True)) =
     ((new_Gateway (JRef 0) (JBool True))
        \<lparr>client := Some sample_client,
         options := JObj
           [(''queryHandler'', JStr ''./impl/query/defaultqueryhandler''),
            (''queryHandlerOptions'', JObj []),
            (''eventHandlerOptions'', JObj
               [(''commitTimeout'', JNum 300),
                (''strategy'', JRef 0)]),
            (''discovery'', JObj [(''enabled'', JBool True)]),
            (''wallet'', JRef 1)],
         queryHandlerClass := JRef 7\<rparr>,
      None)"
  by (simp add: connect_defs sample_defs get.simps)

section \<open>Event handler defaults\<close>

lemma get_options_dropQueryHandlerOptions:
  "k \<noteq> ''queryHandlerOptions'' \<Longrightarrow>
   get (options (dropQueryHandlerOptions opts g)) k = get (options g) k"
  by (simp add: dropQueryHandlerOptions_def)

lemma connect_keeps_eventHandlerOption:
  assumes "\<not> overridesEventHandlerOption opts name"
  shows "get (get (getOptions (fst (connect env cfg opts g))) ''eventHandlerOptions'') name =
         get (get (getOptions g) ''eventHandlerOptions'') name"
proof (cases "truthy opts \<and> truthy (get opts ''wallet'')")
  case True
  have sup: "\<forall>v. (''eventHandlerOptions'', v) \<in> set (props_of opts) \<longrightarrow>
      instanceofObject v \<and> name \<notin> fst ` set (props_of v)"
    using assms by (auto simp: overridesEventHandlerOption_def list_ex_iff)
  have e: "endsWith ''eventHandlerOptions'' ''Options''"
    by (simp add: endsWith_def)
  have "get (get (getOptions (fst (connect env cfg opts g))) ''eventHandlerOptions'') name =
        get (get (options (dropQueryHandlerOptions opts g)) ''eventHandlerOptions'') name"
    using True mergeOptions_frame2 [OF sup e]
    by (simp add: getOptions_def options_connect)
  then show ?thesis
    by (simp add: get_options_dropQueryHandlerOptions getOptions_def)
next
  case False
  then show ?thesis
    using connect_no_wallet [of opts env cfg g] by auto
qed

text \<open>
  C5. The event handler options of a new Gateway are a commit timeout of 300 and the
  strategy \<^verbatim>\<open>MSPID_SCOPE_ALLFORTX\<close>; after a \<open>connect\<close> on a new Gateway whose options
  do not override the one or the other, whatever the outcome of the call, \<open>getOptions\<close>
  still reports it.
\<close>

theorem event_handler_defaults:
  "get (get (getOptions (new_Gateway s d)) ''eventHandlerOptions'') ''commitTimeout'' = JNum 300
   \<and> get (get (getOptions (new_Gateway s d)) ''eventHandlerOptions'') ''strategy'' = s
   \<and> (\<not> overridesEventHandlerOption opts ''commitTimeout'' \<longrightarrow>
        get (get (getOptions (fst (connect env cfg opts (new_Gateway s d))))
               ''eventHandlerOptions'') ''commitTimeout'' = JNum 300)
   \<and> (\<not> overridesEventHandlerOption opts ''strategy'' \<longrightarrow>
        get (get (getOptions (fst (connect env cfg opts (new_Gateway s d))))
               ''eventHandlerOptions'') ''strategy'' = s)"
proof -
  have a: "get (get (getOptions (new_Gateway s d)) ''eventHandlerOptions'') ''commitTimeout''
      = JNum 300"
    and b: "get (get (getOptions (new_Gateway s d)) ''eventHandlerOptions'') ''strategy'' = s"
    by (simp_all add: getOptions_def new_Gateway_def get.simps)
  from a b connect_keeps_eventHandlerOption [of opts _ env cfg "new_Gateway s d"]
  show ?thesis by simp
qed

theorem event_handler_defaults_witness:
  "\<not> overridesEventHandlerOption sample_options ''commitTimeout''
   \<and> get (get (getOptions (fst (connect sample_env (ClientInstance sample_client)
             sample_options (new_Gateway (JRef 0) (JBool True)))))
          ''eventHandlerOptions'') ''commitTimeout'' = JNum 300
   \<and> \<not> overridesEventHandlerOption sample_overrides ''strategy''
   \<and> get (get (getOptions (fst (connect sample_env (ClientInstance sample_client)
             sample_overrides (new_Gateway (JRef 0) (JBool True)))))
          ''eventHandlerOptions'') ''strategy'' = JRef 0"
proof -
  have a: "\<not> overridesEventHandlerOption sample_options ''commitTimeout''"
    and b: "\<not> overridesEventHandlerOption sample_overrides ''strategy''"
    by (simp_all add: overridesEventHandlerOption_def sample_defs)
  from a b
    event_handler_defaults [THEN conjunct2, THEN conjunct2, THEN conjunct1, rule_format, OF a]
    event_handler_defaults [THEN conjunct2, THEN conjunct2, THEN conjunct2, rule_format, OF b]
  show ?thesis by simp
qed

section \<open>Query handler options at connect\<close>

lemma queryHandlerOptions_after_merge:
  assumes wallet: "ref_truthy (read st (RObj s) ''wallet'')"
    and guard: "st1 = dropQueryHandlerOptions_store st (RObj d) (RObj s)"
    and sep: "separated st1 d s R"
    and ok: "connect_options depth st (RObj d) (RObj s) = (st', None)"
  shows
    "(ref_truthy (read st (RObj s) ''queryHandler'')
        \<and> read st (RObj d) ''queryHandler'' \<noteq> read st (RObj s) ''queryHandler'' \<longrightarrow>
       st1 = delete_property st (RObj d) ''queryHandlerOptions''
       \<and> read st' (RObj d) ''queryHandlerOptions'' = read st (RObj s) ''queryHandlerOptions'')
   \<and> (\<not> (ref_truthy (read st (RObj s) ''queryHandler'')
           \<and> read st (RObj d) ''queryHandler'' \<noteq> read st (RObj s) ''queryHandler'') \<longrightarrow>
       st1 = st
       \<and> (''queryHandlerOptions'' \<notin> fst ` set (st s) \<longrightarrow>
             read st' (RObj d) ''queryHandlerOptions'' = read st (RObj d) ''queryHandlerOptions''
             \<and> (\<forall>q. read st (RObj d) ''queryHandlerOptions'' = RObj q \<and> q \<noteq> d
                    \<and> (\<forall>k \<in> fst ` set (st s). recursesOn st d s k \<longrightarrow> q \<notin> R k) \<longrightarrow>
                  st' q = st q))
       \<and> (\<forall>q v. read st (RObj d) ''queryHandlerOptions'' = RObj q
               \<and> read st (RObj s) ''queryHandlerOptions'' = RObj v \<longrightarrow>
             read st' (RObj d) ''queryHandlerOptions'' = RObj q
             \<and> (\<forall>R2. separated st q v R2 \<longrightarrow>
                   (\<forall>j. j \<notin> fst ` set (st v) \<longrightarrow>
                      read st' (RObj q) j = read st (RObj q) j)
                 \<and> (\<forall>j \<in> fst ` set (st v). \<not> recursesOn st q v j \<longrightarrow>
                      read st' (RObj q) j = read st (RObj v) j))))"
proof -
  let ?k = "''queryHandlerOptions''"
  from sep have ds: "d \<noteq> s" by (simp add: separated_def separated_on_def)
  then have s1: "st1 s = st s"
    unfolding guard by (simp add: dropQueryHandlerOptions_store_other)
  have top: "loop_result depth R st1 d s (map fst (st1 s)) st'"
    using connect_options_result [OF wallet sep [unfolded guard] ok] s1 guard by simp
  note F = loop_result_fields [OF top]
  have rs: "read st1 (RObj s) k = read st (RObj s) k" for k
    using s1 by (rule read_same)
  have A: "st1 = delete_property st (RObj d) ?k \<and> read st' (RObj d) ?k = read st (RObj s) ?k"
    if differ: "ref_truthy (read st (RObj s) ''queryHandler'')"
      "read st (RObj d) ''queryHandler'' \<noteq> read st (RObj s) ''queryHandler''"
  proof -
    from differ have del: "st1 = delete_property st (RObj d) ?k"
      unfolding guard by (simp add: dropQueryHandlerOptions_store_def)
    then have gone: "read st1 (RObj d) ?k = RUndefined"
      by (simp add: read.simps delete_conv')
    have "read st' (RObj d) ?k = read st (RObj s) ?k"
    proof (cases "?k \<in> fst ` set (st s)")
      case True
      with s1 have "?k \<in> fst ` set (st1 s)" by simp
      from F(2) [OF this] gone rs show ?thesis by (simp add: recursesOn_def)
    next
      case False
      with s1 have "?k \<notin> fst ` set (st1 s)" by simp
      moreover have "read st (RObj s) ?k = RUndefined"
        using False by (rule read_absent)
      ultimately show ?thesis using F(1) [of ?k] gone by simp
    qed
    with del show ?thesis by simp
  qed
  have B: "st1 = st
       \<and> (?k \<notin> fst ` set (st s) \<longrightarrow>
             read st' (RObj d) ?k = read st (RObj d) ?k
             \<and> (\<forall>q. read st (RObj d) ?k = RObj q \<and> q \<noteq> d
                    \<and> (\<forall>k \<in> fst ` set (st s). recursesOn st d s k \<longrightarrow> q \<notin> R k) \<longrightarrow>
                  st' q = st q))
       \<and> (\<forall>q v. read st (RObj d) ?k = RObj q \<and> read st (RObj s) ?k = RObj v \<longrightarrow>
             read st' (RObj d) ?k = RObj q
             \<and> (\<forall>R2. separated st q v R2 \<longrightarrow>
                   (\<forall>j. j \<notin> fst ` set (st v) \<longrightarrow>
                      read st' (RObj q) j = read st (RObj q) j)
                 \<and> (\<forall>j \<in> fst ` set (st v). \<not> recursesOn st q v j \<longrightarrow>
                      read st' (RObj q) j = read st (RObj v) j)))"
    if same: "\<not> (ref_truthy (read st (RObj s) ''queryHandler'')
           \<and> read st (RObj d) ''queryHandler'' \<noteq> read st (RObj s) ''queryHandler'')"
  proof -
    from same have st1: "st1 = st"
      unfolding guard by (auto simp: dropQueryHandlerOptions_store_def)
    note top' = top [unfolded st1]
    note sep' = sep [unfolded st1]
    note F' = loop_result_fields [OF top']
    have absent: "read st' (RObj d) ?k = read st (RObj d) ?k
             \<and> (\<forall>q. read st (RObj d) ?k = RObj q \<and> q \<noteq> d
                    \<and> (\<forall>k \<in> fst ` set (st s). recursesOn st d s k \<longrightarrow> q \<notin> R k) \<longrightarrow>
                  st' q = st q)"
      if no: "?k \<notin> fst ` set (st s)"
    proof -
      have "st' q = st q"
        if "q \<noteq> d" "\<forall>k \<in> fst ` set (st s). recursesOn st d s k \<longrightarrow> q \<notin> R k" for q
        using that by (intro loop_resultD(2) [OF top']) auto
      with F'(1) [OF no] show ?thesis by blast
    qed
    have named: "read st' (RObj d) ?k = RObj q
             \<and> (\<forall>R2. separated st q v R2 \<longrightarrow>
                   (\<forall>j. j \<notin> fst ` set (st v) \<longrightarrow>
                      read st' (RObj q) j = read st (RObj q) j)
                 \<and> (\<forall>j \<in> fst ` set (st v). \<not> recursesOn st q v j \<longrightarrow>
                      read st' (RObj q) j = read st (RObj v) j))"
      if q: "read st (RObj d) ?k = RObj q" and v: "read st (RObj s) ?k = RObj v" for q v
    proof -
      have key: "?k \<in> fst ` set (st s)"
      proof (rule ccontr)
        assume "?k \<notin> fst ` set (st s)"
        then have "read st (RObj s) ?k = RUndefined" by (rule read_absent)
        with v show False by simp
      qed
      have nested: "ref_nestedOptions ?k (read st (RObj s) ?k)"
        using v by (simp add: ref_nestedOptions_def endsWith_def)
      then have rec: "recursesOn st d s ?k"
        using q by (simp add: recursesOn_def)
      from F'(3) [OF key rec] q have kept: "read st' (RObj d) ?k = RObj q" by simp
      have "(\<forall>j. j \<notin> fst ` set (st v) \<longrightarrow> read st' (RObj q) j = read st (RObj q) j)
          \<and> (\<forall>j \<in> fst ` set (st v). \<not> recursesOn st q v j \<longrightarrow>
                read st' (RObj q) j = read st (RObj v) j)"
        if "separated st q v R2" for R2
        using nested_fields [OF top' sep' key nested q v that] by blast
      with kept show ?thesis by blast
    qed
    from st1 absent named show ?thesis by blast
  qed
  from A B show ?thesis by blast
qed

text \<open>
  C9. In a \<open>connect\<close> with the options \<open>s\<close>, on a gateway with the options \<open>d\<close>.
  When the options name a query handler that is not the one the gateway has, the
  gateway's \<^verbatim>\<open>queryHandlerOptions\<close> are deleted before the merge, which starts
  without them; and after it (the options carry a wallet, the option objects are separated
  and the merge runs through) they are the supplied ones, \<^verbatim>\<open>undefined\<close> when none are
  supplied: nothing of the earlier ones applies. When the options name no query handler,
  or the one the gateway has, nothing is deleted before the merge; after it, the gateway's
  \<^verbatim>\<open>queryHandlerOptions\<close> are as they were when the options supply none, and when the
  options supply an object, the gateway keeps its own object and that object keeps the
  properties that the supplied one does not name and takes the supplied value of those it
  names (but for a nested call one level further down, which merges by the same rule).
\<close>

theorem connect_options_queryHandlerOptions:
  assumes guard: "st1 = dropQueryHandlerOptions_store st (RObj d) (RObj s)"
  shows
    "(ref_truthy (read st (RObj s) ''queryHandler'')
        \<and> read st (RObj d) ''queryHandler'' \<noteq> read st (RObj s) ''queryHandler'' \<longrightarrow>
       st1 = delete_property st (RObj d) ''queryHandlerOptions''
       \<and> read st1 (RObj d) ''queryHandlerOptions'' = RUndefined
       \<and> (ref_truthy (read st (RObj s) ''wallet'') \<and> separated st1 d s R
            \<and> connect_options depth st (RObj d) (RObj s) = (st', None) \<longrightarrow>
          read st' (RObj d) ''queryHandlerOptions'' = read st (RObj s) ''queryHandlerOptions''))
   \<and> (\<not> (ref_truthy (read st (RObj s) ''queryHandler'')
           \<and> read st (RObj d) ''queryHandler'' \<noteq> read st (RObj s) ''queryHandler'') \<longrightarrow>
       st1 = st
       \<and> (ref_truthy (read st (RObj s) ''wallet'') \<and> separated st1 d s R
            \<and> connect_options depth st (RObj d) (RObj s) = (st', None) \<longrightarrow>
          (''queryHandlerOptions'' \<notin> fst ` set (st s) \<longrightarrow>
             read st' (RObj d) ''queryHandlerOptions'' = read st (RObj d) ''queryHandlerOptions''
             \<and> (\<forall>q. read st (RObj d) ''queryHandlerOptions'' = RObj q \<and> q \<noteq> d
                    \<and> (\<forall>k \<in> fst ` set (st s). recursesOn st d s k \<longrightarrow> q \<notin> R k) \<longrightarrow>
                  st' q = st q))
          \<and> (\<forall>q v. read st (RObj d) ''queryHandlerOptions'' = RObj q
                  \<and> read st (RObj s) ''queryHandlerOptions'' = RObj v \<longrightarrow>
                read st' (RObj d) ''queryHandlerOptions'' = RObj q
                \<and> (\<forall>R2. separated st q v R2 \<longrightarrow>
                      (\<forall>j. j \<notin> fst ` set (st v) \<longrightarrow>
                         read st' (RObj q) j = read st (RObj q) j)
                    \<and> (\<forall>j \<in> fst ` set (st v). \<not> recursesOn st q v j \<longrightarrow>
                         read st' (RObj q) j = read st (RObj v) j)))))"
    (is "(?P \<longrightarrow> ?D1 \<and> ?D2 \<and> (?W \<longrightarrow> ?X)) \<and> (\<not> ?P \<longrightarrow> ?S \<and> (?W \<longrightarrow> ?Y))")
proof (rule conjI)
  show "?P \<longrightarrow> ?D1 \<and> ?D2 \<and> (?W \<longrightarrow> ?X)"
  proof (rule impI)
    assume differ: ?P
    then have d1: ?D1
      unfolding guard by (simp add: dropQueryHandlerOptions_store_def)
    then have d2: ?D2
      by (simp add: read.simps delete_conv')
    have x: ?X if ?W
    proof -
      from that have w: "ref_truthy (read st (RObj s) ''wallet'')"
        and sep: "separated st1 d s R"
        and ok: "connect_options depth st (RObj d) (RObj s) = (st', None)"
        by simp_all
      from queryHandlerOptions_after_merge [OF w guard sep ok, THEN conjunct1, rule_format,
          OF differ]
      show ?thesis by (rule conjunct2)
    qed
    from d1 d2 x show "?D1 \<and> ?D2 \<and> (?W \<longrightarrow> ?X)" by blast
  qed
  show "\<not> ?P \<longrightarrow> ?S \<and> (?W \<longrightarrow> ?Y)"
  proof (rule impI, rule conjI)
    assume same: "\<not> ?P"
    then show ?S
      unfolding guard by (auto simp: dropQueryHandlerOptions_store_def)
    show "?W \<longrightarrow> ?Y"
    proof (rule impI)
      assume ?W
      then have w: "ref_truthy (read st (RObj s) ''wallet'')"
        and sep: "separated st1 d s R"
        and ok: "connect_options depth st (RObj d) (RObj s) = (st', None)"
        by simp_all
      from queryHandlerOptions_after_merge [OF w guard sep ok, THEN conjunct2, rule_format,
          OF same]
      show ?Y by (rule conjunct2)
    qed
  qed
qed

theorem connect_options_queryHandlerOptions_witness:
  "snd (connect_options 8 sample_store (RObj 0) (RObj 20)) = None
   \<and> read sample_store (RObj 0) ''queryHandlerOptions'' = RObj 1
   \<and> read (fst (connect_options 8 sample_store (RObj 0) (RObj 20))) (RObj 0)
       ''queryHandlerOptions'' = RUndefined
   \<and> snd (connect_options 8 sample_store (RObj 0) (RObj 30)) = None
   \<and> read (fst (connect_options 8 sample_store (RObj 0) (RObj 30))) (RObj 0)
       ''queryHandlerOptions'' = RObj 1
   \<and> read (fst (connect_options 8 sample_store (RObj 0) (RObj 30))) (RObj 1)
       ''timeout'' = RNum 5
   \<and> read (fst (connect_options 8 sample_store (RObj 0) (RObj 30))) (RObj 1)
       ''retries'' = RNum 2
   \<and> fst (connect_options 8 sample_store (RObj 0) (RObj 10)) 1 = [(''timeout'', RNum 5)]"
proof -
  let ?A = "fst (connect_options 8 sample_store (RObj 0) (RObj 20))"
  let ?B = "fst (connect_options 8 sample_store (RObj 0) (RObj 30))"
  let ?C = "fst (connect_options 8 sample_store (RObj 0) (RObj 10))"
  have wA: "ref_truthy (read sample_store (RObj 20) ''wallet'')"
    and wB: "ref_truthy (read sample_store (RObj 30) ''wallet'')"
    and wC: "ref_truthy (read sample_store (RObj 10) ''wallet'')"
    by (simp_all add: sample_store_def read.simps)
  have okA: "connect_options 8 sample_store (RObj 0) (RObj 20) = (?A, None)"
    and okB: "connect_options 8 sample_store (RObj 0) (RObj 30) = (?B, None)"
    and okC: "connect_options 8 sample_store (RObj 0) (RObj 10) = (?C, None)"
    by (simp_all add: prod_eq_iff store_defs sample_store_def)
  have sepA: "separated (dropQueryHandlerOptions_store sample_store (RObj 0) (RObj 20)) 0 20
      sample_regions"
    by (simp add: separated_defs dropQueryHandlerOptions_store_def sample_store_def
        sample_regions_def)
  have sepB: "separated (dropQueryHandlerOptions_store sample_store (RObj 0) (RObj 30)) 0 30
      sample_regions"
    by (simp add: separated_defs dropQueryHandlerOptions_store_def sample_store_def
        sample_regions_def)
  have differ: "ref_truthy (read sample_store (RObj 20) ''queryHandler'')
      \<and> read sample_store (RObj 0) ''queryHandler'' \<noteq> read sample_store (RObj 20) ''queryHandler''"
    by (simp add: sample_store_def read.simps)
  have a: "read ?A (RObj 0) ''queryHandlerOptions'' = RUndefined"
    using connect_options_queryHandlerOptions [OF refl, THEN conjunct1,
        rule_format, OF differ, THEN conjunct2, THEN conjunct2, rule_format,
        OF conjI [OF wA conjI [OF sepA okA]]]
    by (simp add: sample_store_def read.simps)
  have same: "\<not> (ref_truthy (read sample_store (RObj 30) ''queryHandler'')
      \<and> read sample_store (RObj 0) ''queryHandler'' \<noteq> read sample_store (RObj 30) ''queryHandler'')"
    by (simp add: sample_store_def read.simps)
  note tB = connect_options_queryHandlerOptions [OF refl, THEN conjunct2,
      rule_format, OF same, THEN conjunct2, rule_format, OF conjI [OF wB conjI [OF sepB okB]]]
  have objs: "read sample_store (RObj 0) ''queryHandlerOptions'' = RObj 1
      \<and> read sample_store (RObj 30) ''queryHandlerOptions'' = RObj 31"
    by (simp add: sample_store_def read.simps)
  note nB = tB [THEN conjunct2, rule_format, OF objs]
  have b: "read ?B (RObj 0) ''queryHandlerOptions'' = RObj 1"
    using nB by (rule conjunct1)
  have sep2: "separated sample_store 1 31 (\<lambda>k. {})"
    by (simp add: separated_defs sample_store_def)
  note fB = nB [THEN conjunct2, rule_format, OF sep2]
  have c: "read ?B (RObj 1) ''timeout'' = RNum 5"
    using fB [THEN conjunct1, rule_format, of "''timeout''"]
    by (simp add: sample_store_def read.simps)
  have d: "read ?B (RObj 1) ''retries'' = RNum 2"
    using fB [THEN conjunct2, rule_format, of "''retries''"]
    by (simp add: sample_store_def read.simps recursesOn_def ref_nestedOptions_def)
  have sameC: "\<not> (ref_truthy (read sample_store (RObj 10) ''queryHandler'')
      \<and> read sample_store (RObj 0) ''queryHandler'' \<noteq> read sample_store (RObj 10) ''queryHandler'')"
    by (simp add: sample_store_def read.simps)
  have sepC: "separated (dropQueryHandlerOptions_store sample_store (RObj 0) (RObj 10)) 0 10
      sample_regions"
    using sample_separated by (simp add: sample_guard)
  note tC = connect_options_queryHandlerOptions [OF refl, THEN conjunct2,
      rule_format, OF sameC, THEN conjunct2, rule_format, OF conjI [OF wC conjI [OF sepC okC]],
      THEN conjunct1, rule_format]
  have absent: "''queryHandlerOptions'' \<notin> fst ` set (sample_store 10)"
    by (simp add: sample_store_def)
  have untouched: "read sample_store (RObj 0) ''queryHandlerOptions'' = RObj 1 \<and> (1::nat) \<noteq> 0
      \<and> (\<forall>k \<in> fst ` set (sample_store 10). recursesOn sample_store 0 10 k \<longrightarrow>
            1 \<notin> sample_regions k)"
    by (simp add: sample_store_def read.simps recursesOn_def sample_regions_def
        ref_nestedOptions_def endsWith_def)
  have e: "?C 1 = [(''timeout'', RNum 5)]"
    using tC [OF absent, THEN conjunct2, rule_format, OF untouched]
    by (simp add: sample_store_def)
  have rA: "snd (connect_options 8 sample_store (RObj 0) (RObj 20)) = None"
    and rB: "snd (connect_options 8 sample_store (RObj 0) (RObj 30)) = None"
    by (simp_all add: store_defs sample_store_def)
  from rA rB objs a b c d e show ?thesis by simp
qed

section \<open>The steps of a connect that succeeds\<close>


lemma connect_success:
  assumes "connect env cfg opts g = (g', None)"
  obtains merged c g4 c1 where
    "truthy opts" and "truthy (get opts ''wallet'')"
    and "mergeOptions (options (dropQueryHandlerOptions opts g)) (props_of opts) = (merged, None)"
    and "selectClient env cfg = Inr c"
    and "assignIdentity env opts c
           ((dropQueryHandlerOptions opts g)\<lparr>options := merged, client := Some c\<rparr>) = Inr g4"
    and "assignTls env opts c = Inr c1"
    and "loadQueryHandler env (g4\<lparr>client := Some c1\<rparr>) = (g', None)"
  using assms
  by (auto simp: connect_def Let_def split: if_splits prod.splits option.splits sum.splits)

lemma loadQueryHandler_fields:
  "client (fst (loadQueryHandler env g)) = client g"
  by (simp add: loadQueryHandler_def split: sum.splits)


lemma assignIdentity_supplied:
  assumes "assignIdentity env opts c g = Inr g4" and "truthy (get opts ''identity'')"
  shows "\<exists>u. setUserContext env (get opts ''wallet'') c (get opts ''identity'') = Inr u
           \<and> currentIdentity g4 = Some u"
  using assms by (auto simp: assignIdentity_def split: sum.splits)


section \<open>Loading the query handler\<close>



section \<open>The current identity\<close>

lemma currentIdentity_getNetwork:
  "currentIdentity (fst (fst (getNetwork env N w))) = currentIdentity (fst w)"
  by (auto simp: getNetwork_def Let_def split: prod.splits option.splits sum.splits)

lemma currentIdentity_disconnect:
  "currentIdentity (fst (disconnect w)) = currentIdentity (fst w)"
  by (simp add: disconnect_def split: prod.splits)

lemma currentIdentity_step:
  "\<not> supplies_identity c \<Longrightarrow> currentIdentity (fst (step c w)) = currentIdentity (fst w)"
proof (cases c)
  case (Connect env cfg opts)
  assume "\<not> supplies_identity c"
  then show ?thesis
    unfolding Connect by (cases w) (simp add: currentIdentity_connect)
qed (simp_all add: currentIdentity_getNetwork currentIdentity_disconnect)

lemma currentIdentity_run:
  "list_all (\<lambda>c. \<not> supplies_identity c) cs \<Longrightarrow>
   currentIdentity (fst (run cs w)) = currentIdentity (fst w)"
  by (induction cs arbitrary: w) (simp_all add: currentIdentity_step)

text \<open>
  A merge of options that hold no nested options object only assigns to the options of the
  gateway and does not throw.
\<close>

lemma mergeOptions_flat:
  "list_all (\<lambda>(k, v). \<not> nestedOptions k v) fs \<Longrightarrow> snd (mergeOptions (JObj d) fs) = None"
  by (induction fs arbitrary: d) auto

lemma currentIdentity_after_assignIdentity:
  assumes "truthy opts" and "truthy (get opts ''wallet'')"
    and "mergeOptions (options (dropQueryHandlerOptions opts g)) (props_of opts) = (merged, None)"
    and "selectClient env cfg = Inr c"
    and "assignIdentity env opts c
           ((dropQueryHandlerOptions opts g)\<lparr>options := merged, client := Some c\<rparr>) = Inr g4"
  shows "currentIdentity (fst (connect env cfg opts g)) = currentIdentity g4"
  using assms by (simp add: connect_def split: sum.splits)

text \<open>
  C7. For a \<open>connect\<close> whose options carry the identity label \<open>L\<close>, on a gateway with
  whatever identity before: when it returns, \<open>getCurrentIdentity\<close> is the user that the
  wallet's \<^verbatim>\<open>setUserContext\<close> returned for \<open>L\<close> on the gateway's client; it is that
  user as soon as the options carry a wallet and no nested options object, the client is
  obtained and \<^verbatim>\<open>setUserContext\<close> returns (whatever the later blocks of \<open>connect\<close>
  do); and it stays what \<open>connect\<close> left through any sequence of calls none of which is
  a \<open>connect\<close> with an identity label.
\<close>

theorem connect_sets_current_identity:
  assumes label: "truthy (get opts ''identity'')"
  shows
    "(snd (connect env cfg opts g) = None \<longrightarrow>
        (\<exists>c u. selectClient env cfg = Inr c
           \<and> setUserContext env (get opts ''wallet'') c (get opts ''identity'') = Inr u
           \<and> getCurrentIdentity (fst (connect env cfg opts g)) = Some u))
   \<and> (truthy opts \<and> truthy (get opts ''wallet'') \<and> isPlainObject (options g)
        \<and> list_all (\<lambda>(k, v). \<not> nestedOptions k v) (props_of opts)
        \<and> selectClient env cfg = Inr c
        \<and> setUserContext env (get opts ''wallet'') c (get opts ''identity'') = Inr u \<longrightarrow>
        getCurrentIdentity (fst (connect env cfg opts g)) = Some u)
   \<and> (\<forall>cs heap. list_all (\<lambda>c. \<not> supplies_identity c) cs \<longrightarrow>
        getCurrentIdentity (fst (run cs (fst (connect env cfg opts g), heap))) =
        getCurrentIdentity (fst (connect env cfg opts g)))"
proof (intro conjI impI allI)
  assume "snd (connect env cfg opts g) = None"
  then have ok: "connect env cfg opts g = (fst (connect env cfg opts g), None)"
    by (simp add: prod_eq_iff)
  from ok obtain merged c g4 c1 where
    sel: "selectClient env cfg = Inr c"
    and idn: "assignIdentity env opts c
           ((dropQueryHandlerOptions opts g)\<lparr>options := merged, client := Some c\<rparr>) = Inr g4"
    and load: "loadQueryHandler env (g4\<lparr>client := Some c1\<rparr>) = (fst (connect env cfg opts g), None)"
    by (rule connect_success)
  from assignIdentity_supplied [OF idn label] obtain u where
    u: "setUserContext env (get opts ''wallet'') c (get opts ''identity'') = Inr u"
    and cur: "currentIdentity g4 = Some u"
    by blast
  have "currentIdentity (fst (connect env cfg opts g)) = currentIdentity (g4\<lparr>client := Some c1\<rparr>)"
    using currentIdentity_loadQueryHandler [of env "g4\<lparr>client := Some c1\<rparr>"] load by simp
  with cur have "getCurrentIdentity (fst (connect env cfg opts g)) = Some u"
    by (simp add: getCurrentIdentity_def)
  with sel u show "\<exists>c u. selectClient env cfg = Inr c
           \<and> setUserContext env (get opts ''wallet'') c (get opts ''identity'') = Inr u
           \<and> getCurrentIdentity (fst (connect env cfg opts g)) = Some u"
    by blast
next
  assume a: "truthy opts \<and> truthy (get opts ''wallet'') \<and> isPlainObject (options g)
        \<and> list_all (\<lambda>(k, v). \<not> nestedOptions k v) (props_of opts)
        \<and> selectClient env cfg = Inr c
        \<and> setUserContext env (get opts ''wallet'') c (get opts ''identity'') = Inr u"
  let ?g1 = "dropQueryHandlerOptions opts g"
  from a have "isPlainObject (options ?g1)"
    by (simp add: isPlainObject_dropQueryHandlerOptions)
  then obtain d where d: "options ?g1 = JObj d"
    by (cases "options ?g1") simp_all
  from a have "snd (mergeOptions (JObj d) (props_of opts)) = None"
    by (simp add: mergeOptions_flat)
  then obtain merged where
    m: "mergeOptions (options ?g1) (props_of opts) = (merged, None)"
    unfolding d by (cases "mergeOptions (JObj d) (props_of opts)") simp
  from a label have idn: "assignIdentity env opts c (?g1\<lparr>options := merged, client := Some c\<rparr>) =
      Inr (?g1\<lparr>options := merged, client := Some c, currentIdentity := Some u\<rparr>)"
    by (simp add: assignIdentity_def)
  from a have "currentIdentity (fst (connect env cfg opts g)) = Some u"
    using currentIdentity_after_assignIdentity [OF _ _ m _ idn] by simp
  then show "getCurrentIdentity (fst (connect env cfg opts g)) = Some u"
    by (simp add: getCurrentIdentity_def)
next
  fix cs heap
  assume "list_all (\<lambda>c. \<not> supplies_identity c) cs"
  from currentIdentity_run [OF this, of "(fst (connect env cfg opts g), heap)"]
  show "getCurrentIdentity (fst (run cs (fst (connect env cfg opts g), heap))) =
        getCurrentIdentity (fst (connect env cfg opts g))"
    by (simp add: getCurrentIdentity_def)
qed

theorem connect_sets_current_identity_witness:
  "getCurrentIdentity (new_Gateway (JRef 0) (JBool True)) = None
   \<and> connect sample_env (ClientInstance sample_client) sample_options
       (new_Gateway (JRef 0) (JBool True)) = (sample_gateway, None)
   \<and> getCurrentIdentity (fst (connect sample_env (ClientInstance sample_client) sample_options
       (new_Gateway (JRef 0) (JBool True)))) = Some \<lparr>user_name = ''admin'', mspId = ''Org1MSP''\<rparr>
   \<and> getCurrentIdentity (fst (run
        [GetNetwork sample_env ''mychannel'',
         Connect sample_env (ClientInstance sample_client) (JObj [(''wallet'', JRef 1)]),
         Disconnect]
        (fst (connect sample_env (ClientInstance sample_client) sample_options
           (new_Gateway (JRef 0) (JBool True))), []))) =
       Some \<lparr>user_name = ''admin'', mspId = ''Org1MSP''\<rparr>
   \<and> getCurrentIdentity (fst (connect sample_env (ClientInstance sample_client)
        (JObj [(''wallet'', JRef 1), (''identity'', JStr ''user1'')])
        (fst (connect sample_env (ClientInstance sample_client) sample_options
           (new_Gateway (JRef 0) (JBool True)))))) =
       Some \<lparr>user_name = ''user1'', mspId = ''Org1MSP''\<rparr>"
proof -
  let ?new = "new_Gateway (JRef 0) (JBool True)"
  let ?c = "connect sample_env (ClientInstance sample_client) sample_options ?new"
  let ?admin = "\<lparr>user_name = ''admin'', mspId = ''Org1MSP''\<rparr>"
  let ?opts2 = "JObj [(''wallet'', JRef 1), (''identity'', JStr ''user1'')]"
  have label: "truthy (get sample_options ''identity'')"
    by (simp add: sample_options_def get.simps)
  have none: "getCurrentIdentity ?new = None"
    by (simp add: getCurrentIdentity_def new_Gateway_def)
  have ok: "snd ?c = None"
    by (simp add: sample_connect)
  from connect_sets_current_identity [OF label, THEN conjunct1, rule_format, OF ok]
  obtain c u where
    sel: "selectClient sample_env (ClientInstance sample_client) = Inr c"
    and u: "setUserContext sample_env (get sample_options ''wallet'') c
              (get sample_options ''identity'') = Inr u"
    and cur: "getCurrentIdentity (fst ?c) = Some u"
    by blast
  from u have "u = ?admin"
    by (simp add: sample_env_def sample_options_def get.simps)
  with cur have admin: "getCurrentIdentity (fst ?c) = Some ?admin"
    by simp
  have quiet: "list_all (\<lambda>c. \<not> supplies_identity c)
        [GetNetwork sample_env ''mychannel'',
         Connect sample_env (ClientInstance sample_client) (JObj [(''wallet'', JRef 1)]),
         Disconnect]"
    by (simp add: get.simps)
  note keep = connect_sets_current_identity [OF label, THEN conjunct2, THEN conjunct2,
      rule_format, OF quiet, of sample_env "ClientInstance sample_client" ?new "[]"]
  have label2: "truthy (get ?opts2 ''identity'')"
    by (simp add: get.simps)
  have flat: "truthy ?opts2 \<and> truthy (get ?opts2 ''wallet'') \<and> isPlainObject (options (fst ?c))
        \<and> list_all (\<lambda>(k, v). \<not> nestedOptions k v) (props_of ?opts2)
        \<and> selectClient sample_env (ClientInstance sample_client) = Inr sample_client
        \<and> setUserContext sample_env (get ?opts2 ''wallet'') sample_client (get ?opts2 ''identity'') =
            Inr \<lparr>user_name = ''user1'', mspId = ''Org1MSP''\<rparr>"
  proof -
    have "isPlainObject (options (fst ?c))"
      by (simp add: sample_connect sample_gateway_def)
    moreover have "setUserContext sample_env (get ?opts2 ''wallet'') sample_client
        (get ?opts2 ''identity'') = Inr \<lparr>user_name = ''user1'', mspId = ''Org1MSP''\<rparr>"
      by (simp add: sample_env_def get.simps)
    ultimately show ?thesis
      by (simp add: get.simps nestedOptions_def endsWith_def selectClient_def)
  qed
  note replaced = connect_sets_current_identity [OF label2, THEN conjunct2, THEN conjunct1,
      rule_format, OF flat]
  from none sample_connect admin keep replaced show ?thesis
    by simp
qed

section \<open>TLS credentials\<close>

lemma sample_connect_tls:
  "connect sample_env (ClientInstance sample_client) sample_tls_options
     (new_Gateway (JRef 0) (JBool True)) =
   ((new_Gateway (JRef 0) (JBool True))
      \<lparr>client := Some (sample_client\<lparr>tlsClientCertAndKey :=
                     [(JStr ''wallet-cert'', JStr ''wallet-key'')]\<rparr>),
       options := JObj (props_of sample_defaults @ props_of sample_tls_options),
       queryHandlerClass := JRef 7\<rparr>, None)"
  by (simp add: connect_defs sample_defs sample_tls_options_def sample_defaults_def get.simps)

lemma sample_connect_tlsInfo:
  "connect sample_env (ClientInstance sample_client) sample_tlsInfo_options
     (new_Gateway (JRef 0) (JBool True)) =
   ((new_Gateway (JRef 0) (JBool True))
      \<lparr>client := Some (sample_client\<lparr>tlsClientCertAndKey :=
                     [(JStr ''info-cert'', JStr ''info-key'')]\<rparr>),
       options := JObj (props_of sample_defaults @ props_of sample_tlsInfo_options),
       queryHandlerClass := JRef 7\<rparr>, None)"
  by (simp add: connect_defs sample_defs sample_tlsInfo_options_def sample_defaults_def
      get.simps)

text \<open>
  C8. After a \<open>connect\<close> that returns, the client of the gateway is the client selected,
  with its TLS assignments extended as follows: with a \<^verbatim>\<open>clientTlsIdentity\<close>, by the one
  pair of certificate and private key that the wallet exported for it, and by nothing else,
  whether \<^verbatim>\<open>tlsInfo\<close> is supplied or not; with no \<^verbatim>\<open>clientTlsIdentity\<close> and a
  \<^verbatim>\<open>tlsInfo\<close>, by the certificate and key of \<^verbatim>\<open>tlsInfo\<close>; with neither, by nothing.
\<close>

theorem connect_tls_precedence:
  assumes ok: "connect env cfg opts g = (g', None)"
  shows "\<exists>c. selectClient env cfg = Inr c
     \<and> (truthy (get opts ''clientTlsIdentity'') \<longrightarrow>
          (\<exists>t. wallet_export env (get opts ''wallet'') (get opts ''clientTlsIdentity'') = Inr t
             \<and> getClient g' = Some (c\<lparr>tlsClientCertAndKey := tlsClientCertAndKey c @
                   [(get t ''certificate'', get t ''privateKey'')]\<rparr>)))
     \<and> (\<not> truthy (get opts ''clientTlsIdentity'') \<and> truthy (get opts ''tlsInfo'') \<longrightarrow>
          getClient g' = Some (c\<lparr>tlsClientCertAndKey := tlsClientCertAndKey c @
              [(get (get opts ''tlsInfo'') ''certificate'', get (get opts ''tlsInfo'') ''key'')]\<rparr>))
     \<and> (\<not> truthy (get opts ''clientTlsIdentity'') \<and> \<not> truthy (get opts ''tlsInfo'') \<longrightarrow>
          getClient g' = Some c)"
proof -
  from ok obtain merged c g4 c1 where
    sel: "selectClient env cfg = Inr c"
    and tls: "assignTls env opts c = Inr c1"
    and load: "loadQueryHandler env (g4\<lparr>client := Some c1\<rparr>) = (g', None)"
    by (rule connect_success)
  have g': "getClient g' = Some c1"
    using loadQueryHandler_fields [of env "g4\<lparr>client := Some c1\<rparr>"] load
    by (simp add: getClient_def)
  have a: "\<exists>t. wallet_export env (get opts ''wallet'') (get opts ''clientTlsIdentity'') = Inr t
             \<and> c1 = c\<lparr>tlsClientCertAndKey := tlsClientCertAndKey c @
                   [(get t ''certificate'', get t ''privateKey'')]\<rparr>"
    if "truthy (get opts ''clientTlsIdentity'')"
    using tls that
    by (auto simp: assignTls_def setTlsClientCertAndKey_def split: sum.splits if_splits)
  have b: "c1 = c\<lparr>tlsClientCertAndKey := tlsClientCertAndKey c @
              [(get (get opts ''tlsInfo'') ''certificate'', get (get opts ''tlsInfo'') ''key'')]\<rparr>"
    if "\<not> truthy (get opts ''clientTlsIdentity'')" "truthy (get opts ''tlsInfo'')"
    using tls that by (simp add: assignTls_def setTlsClientCertAndKey_def)
  have c: "c1 = c"
    if "\<not> truthy (get opts ''clientTlsIdentity'')" "\<not> truthy (get opts ''tlsInfo'')"
    using tls that by (simp add: assignTls_def)
  from sel g' a b c show ?thesis by auto
qed

theorem connect_tls_precedence_witness:
  "getClient (fst (connect sample_env (ClientInstance sample_client) sample_tls_options
       (new_Gateway (JRef 0) (JBool True)))) =
     Some (sample_client\<lparr>tlsClientCertAndKey :=
             [(JStr ''wallet-cert'', JStr ''wallet-key'')]\<rparr>)
   \<and> getClient (fst (connect sample_env (ClientInstance sample_client) sample_tlsInfo_options
       (new_Gateway (JRef 0) (JBool True)))) =
     Some (sample_client\<lparr>tlsClientCertAndKey :=
             [(JStr ''info-cert'', JStr ''info-key'')]\<rparr>)"
proof -
  from connect_tls_precedence [OF sample_connect_tls] obtain c where
    sel: "selectClient sample_env (ClientInstance sample_client) = Inr c"
    and a: "truthy (get sample_tls_options ''clientTlsIdentity'') \<longrightarrow>
          (\<exists>t. wallet_export sample_env (get sample_tls_options ''wallet'')
                  (get sample_tls_options ''clientTlsIdentity'') = Inr t
             \<and> getClient ((new_Gateway (JRef 0) (JBool True))
                  \<lparr>client := Some (sample_client\<lparr>tlsClientCertAndKey :=
                     [(JStr ''wallet-cert'', JStr ''wallet-key'')]\<rparr>),
                   options := JObj (props_of sample_defaults @ props_of sample_tls_options),
                   queryHandlerClass := JRef 7\<rparr>) =
                 Some (c\<lparr>tlsClientCertAndKey := tlsClientCertAndKey c @
                   [(get t ''certificate'', get t ''privateKey'')]\<rparr>))"
    by blast
  from connect_tls_precedence [OF sample_connect_tlsInfo] obtain c' where
    sel': "selectClient sample_env (ClientInstance sample_client) = Inr c'"
    and b: "\<not> truthy (get sample_tlsInfo_options ''clientTlsIdentity'')
              \<and> truthy (get sample_tlsInfo_options ''tlsInfo'') \<longrightarrow>
          getClient ((new_Gateway (JRef 0) (JBool True))
              \<lparr>client := Some (sample_client\<lparr>tlsClientCertAndKey :=
                     [(JStr ''info-cert'', JStr ''info-key'')]\<rparr>),
               options := JObj (props_of sample_defaults @ props_of sample_tlsInfo_options),
               queryHandlerClass := JRef 7\<rparr>) =
            Some (c'\<lparr>tlsClientCertAndKey := tlsClientCertAndKey c' @
              [(get (get sample_tlsInfo_options ''tlsInfo'') ''certificate'',
                get (get sample_tlsInfo_options ''tlsInfo'') ''key'')]\<rparr>)"
    by blast
  have c: "c = sample_client" and c': "c' = sample_client"
    using sel sel' by (simp_all add: selectClient_def)
  have 1: "truthy (get sample_tls_options ''clientTlsIdentity'')"
    by (simp add: sample_tls_options_def get.simps)
  have 2: "\<not> truthy (get sample_tlsInfo_options ''clientTlsIdentity'')
              \<and> truthy (get sample_tlsInfo_options ''tlsInfo'')"
    by (simp add: sample_tlsInfo_options_def get.simps)
  from a 1 b 2 show ?thesis
    unfolding sample_connect_tls sample_connect_tlsInfo c c'
    by (simp add: getClient_def)
qed

section \<open>Unknown channels\<close>

text \<open>
  C10. On a connected gateway, for a channel name that is not cached and that the client's
  \<^verbatim>\<open>getChannel\<close> does not find: when \<^verbatim>\<open>newChannel\<close> returns a channel and the
  initialization of the Network does not fail, \<open>getNetwork\<close> returns a new Network
  instance built on that channel, initialized with the discovery options and cached under the
  name; and an error of \<open>getNetwork\<close> is never one of the lookup: it is the error of
  \<^verbatim>\<open>newChannel\<close> or the error of the initialization.
\<close>

theorem getNetwork_unknown_channel:
  assumes connected: "getClient g = Some c"
    and fresh: "map_of (networks g) N = None"
    and unknown: "getChannel env c N = Inr None"
  shows "(\<forall>ch. newChannel env c N = Inr ch
             \<and> network_initialize env ch (get (getOptions g) ''discovery'') = None \<longrightarrow>
           getNetwork env N (g, heap) =
             ((g\<lparr>networks := networks g @ [(N, length heap)]\<rparr>,
               heap @ [\<lparr>net_channel = ch,
                        net_initialize_calls = [get (getOptions g) ''discovery''],
                        net_dispose_calls = 0\<rparr>]),
              Inr (length heap)))
       \<and> (\<forall>e. snd (getNetwork env N (g, heap)) = Inl e \<longrightarrow>
             newChannel env c N = Inl e
             \<or> (\<exists>ch. newChannel env c N = Inr ch
                   \<and> network_initialize env ch (get (getOptions g) ''discovery'') = Some e))"
proof -
  have app: "AList.update N (length heap) (networks g) = networks g @ [(N, length heap)]"
    using fresh by (simp add: update_absent map_of_eq_None_iff)
  show ?thesis
    using assms app
    by (auto simp: getNetwork_def lookupChannel_def getClient_def getOptions_def
        new_Network_def Let_def split: sum.splits option.splits)
qed

theorem getNetwork_unknown_channel_witness:
  "getNetwork sample_env ''mychannel'' (sample_gateway, []) =
     ((sample_gateway\<lparr>networks := [(''mychannel'', 0)]\<rparr>,
       [\<lparr>net_channel = Channel ''mychannel'' 0,
         net_initialize_calls = [JObj [(''enabled'', JBool True)]],
         net_dispose_calls = 0\<rparr>]),
      Inr 0)"
proof -
  have connected: "getClient sample_gateway = Some sample_client"
    by (simp add: getClient_def sample_gateway_def)
  have fresh: "map_of (networks sample_gateway) ''mychannel'' = None"
    by (simp add: sample_gateway_def)
  have unknown: "getChannel sample_env sample_client ''mychannel'' = Inr None"
    by (simp add: sample_env_def)
  have built: "newChannel sample_env sample_client ''mychannel'' = Inr (Channel ''mychannel'' 0)
      \<and> network_initialize sample_env (Channel ''mychannel'' 0)
           (get (getOptions sample_gateway) ''discovery'') = None"
    by (simp add: sample_env_def)
  from getNetwork_unknown_channel [OF connected fresh unknown, THEN conjunct1, rule_format,
      OF built, of "[]"]
  show ?thesis
    by (simp add: getOptions_def sample_gateway_def get.simps)
qed

end
